theory Spec2Isabelle
  imports Complex_Main "HOL-Library.Multiset" "HOL-Library.Sublist"
begin

section \<open>Binary floating point\<close>

text \<open>
  A Python \<^verbatim>\<open>float\<close> is an IEEE 754 binary64 number, and every arithmetic operation
  returns the exact result rounded to the nearest double, ties going to the even
  significand. The finite doubles are rationals, so a float is modelled by the rational it
  denotes and an operation by the exact operation followed by \<^verbatim>\<open>round_double\<close>.

  \<^verbatim>\<open>binade x\<close> is the exponent \<open>e\<close> with \<open>2^e \<le> x < 2^(e+1)\<close> of a positive \<open>x\<close>. The doubles
  of that binade are the multiples of \<open>2^(e-52)\<close>, and below \<open>2^(-1022)\<close> (the subnormal
  range) the multiples of \<open>2^(-1074)\<close>. There is no infinity in the model: a result of
  magnitude \<open>2^1024\<close> or more, which Python turns into \<^verbatim>\<open>inf\<close> or an \<^verbatim>\<open>OverflowError\<close>, is
  outside of it. No time or delay of the program comes near that size.
\<close>

definition round_even :: "rat \<Rightarrow> int" where
  "round_even q =
     (let f = \<lfloor>q\<rfloor>; d = q - of_int f in
      if d < 1 / 2 then f else if 1 / 2 < d then f + 1 else if even f then f else f + 1)"

fun ilog2 :: "nat \<Rightarrow> nat" where
  "ilog2 n = (if n < 2 then 0 else Suc (ilog2 (n div 2)))"

declare ilog2.simps [simp del]

definition binade :: "rat \<Rightarrow> int" where
  "binade x =
     (if 1 \<le> x then int (ilog2 (nat \<lfloor>x\<rfloor>))
      else - int (Suc (ilog2 (nat (\<lceil>1 / x\<rceil> - 1)))))"

definition pow2 :: "int \<Rightarrow> rat" where
  "pow2 k = (if 0 \<le> k then 2 ^ nat k else 1 / 2 ^ nat (- k))"

definition ulp_of :: "rat \<Rightarrow> rat" where
  "ulp_of x = pow2 (max (binade x) (- 1022) - 52)"

definition round_double :: "rat \<Rightarrow> rat" where
  "round_double x =
     (if x = 0 then 0
      else if 0 < x then of_int (round_even (x / ulp_of x)) * ulp_of x
      else - (of_int (round_even (- x / ulp_of (- x))) * ulp_of (- x)))"

text \<open>The operations of the program on floats: \<^verbatim>\<open>x + y\<close>, \<^verbatim>\<open>x - y\<close>, the conversion of an
  \<^verbatim>\<open>int\<close> that meets a float, and the true division \<^verbatim>\<open>a / b\<close> of two \<^verbatim>\<open>int\<close>s (which
  is correctly rounded; the caller excludes a zero divisor).\<close>

definition float_add :: "rat \<Rightarrow> rat \<Rightarrow> rat" where
  "float_add x y = round_double (x + y)"

definition float_sub :: "rat \<Rightarrow> rat \<Rightarrow> rat" where
  "float_sub x y = round_double (x - y)"

definition float_of_int :: "int \<Rightarrow> rat" where
  "float_of_int n = round_double (of_int n)"

definition true_div :: "int \<Rightarrow> int \<Rightarrow> rat" where
  "true_div a b = round_double (of_int a / of_int b)"

section \<open>Values, exceptions and the outside world\<close>

text \<open>
  The program is \<^verbatim>\<open>crypto_report.py\<close>, class \<^verbatim>\<open>CryptoReport\<close>. Its payloads are
  whatever \<^verbatim>\<open>response.json()\<close> returns, so they are modelled as JSON values. An object is
  the list of its items in insertion order (a Python dict never holds a key twice).
  Numbers are exact rationals: Python reads them as \<^verbatim>\<open>int\<close> or as binary \<^verbatim>\<open>float\<close>,
  both of which are rationals; the non-standard literals \<^verbatim>\<open>NaN\<close> and \<^verbatim>\<open>Infinity\<close> are
  outside the model. The program only passes these numbers on and compares them; the
  arithmetic it does itself, on times and delays, is float arithmetic and is rounded as
  described in the next section.
\<close>

datatype json =
    JNull
  | JBool bool
  | JNum rat
  | JStr string
  | JArr "json list"
  | JObj "(string \<times> json) list"

text \<open>
  Exceptions are values. The subclasses of \<^verbatim>\<open>requests.exceptions.RequestException\<close> that
  the program can meet are kept apart from the other exception classes, because the
  handlers of the source select on that class. \<^verbatim>\<open>Unmodelled\<close> is not a Python
  exception: it marks the few inputs whose behaviour depends on the comparisons that the
  sorting algorithm of the interpreter happens to make.
\<close>

datatype request_exception =
    ConnectionError string
  | HTTPError int
  | JSONDecodeError

datatype error =
    RequestException request_exception
  | ValueError string
  | KeyError string
  | TypeError
  | AttributeError
  | ZeroDivisionError
  | Unmodelled

record response =
  status_code :: int
  body :: "json option"

datatype http_outcome = NetworkFailure string | Response response

datatype sleep_site = RateLimit | Backoff

datatype event =
    Sleep sleep_site rat
  | HttpGet
  | PrintApiError json
  | PrintRetry nat nat rat
  | PrintRequestFailed request_exception
  | PrintInvalidFormat string
  | PrintTopError error

text \<open>
  What the program cannot decide is an input: the outcome of the k-th call of
  \<^verbatim>\<open>requests.get\<close>, the k-th draw of \<^verbatim>\<open>random.uniform(0, 1)\<close>, and the time of the
  system clock at the k-th call of \<^verbatim>\<open>time.time()\<close>. How long a sleep really lasts is not
  part of the model: a sleep is an event of the trace, with the length asked for.
\<close>

record env =
  responses :: "nat \<Rightarrow> http_outcome"
  jitters :: "nat \<Rightarrow> rat"
  clock :: "nat \<Rightarrow> rat"

text \<open>
  The state: the fields \<^verbatim>\<open>self.last_request_time\<close> and \<^verbatim>\<open>self.rate_limit\<close>, the
  counters into the inputs above, and the observable events (sleeps, HTTP calls, printed
  lines) in the order they happen.
\<close>

record world =
  reads :: nat
  last_request_time :: rat
  rate_limit :: int
  http_calls :: nat
  draws :: nat
  trace :: "event list"

definition emit :: "event \<Rightarrow> world \<Rightarrow> world" where
  "emit ev w = w\<lparr>trace := trace w @ [ev]\<rparr>"

text \<open>\<^verbatim>\<open>time.time()\<close> returns a float: the double nearest to the time of the clock.\<close>

definition time_time :: "env \<Rightarrow> world \<Rightarrow> rat \<times> world" where
  "time_time env w = (round_double (clock env (reads w)), w\<lparr>reads := reads w + 1\<rparr>)"

text \<open>\<^verbatim>\<open>time.sleep\<close> raises \<^verbatim>\<open>ValueError\<close> on a negative length.\<close>

definition time_sleep :: "sleep_site \<Rightarrow> rat \<Rightarrow> world \<Rightarrow> (error + unit) \<times> world" where
  "time_sleep site d w =
     (if d < 0 then (Inl (ValueError ''sleep length must be non-negative''), w)
      else (Inr (), emit (Sleep site d) w))"

definition random_uniform :: "env \<Rightarrow> world \<Rightarrow> rat \<times> world" where
  "random_uniform env w = (jitters env (draws w), w\<lparr>draws := draws w + 1\<rparr>)"

definition requests_get :: "env \<Rightarrow> world \<Rightarrow> (error + response) \<times> world" where
  "requests_get env w =
     (let w1 = emit HttpGet (w\<lparr>http_calls := http_calls w + 1\<rparr>) in
      case responses env (http_calls w) of
        NetworkFailure m \<Rightarrow> (Inl (RequestException (ConnectionError m)), w1)
      | Response r \<Rightarrow> (Inr r, w1))"

subsection \<open>Operations on payloads\<close>

text \<open>\<^verbatim>\<open>v[k]\<close> with a string key: \<^verbatim>\<open>KeyError\<close> on a dict without the key,
  \<^verbatim>\<open>TypeError\<close> on everything that is not a dict.\<close>

fun subscript :: "json \<Rightarrow> string \<Rightarrow> error + json" where
  "subscript (JObj kvs) k = (case map_of kvs k of None \<Rightarrow> Inl (KeyError k) | Some v \<Rightarrow> Inr v)"
| "subscript _ k = Inl TypeError"

text \<open>\<^verbatim>\<open>v.get(k, d)\<close>: only a dict has the method.\<close>

fun dict_get :: "json \<Rightarrow> string \<Rightarrow> json \<Rightarrow> error + json" where
  "dict_get (JObj kvs) k d = Inr (case map_of kvs k of None \<Rightarrow> d | Some v \<Rightarrow> v)"
| "dict_get _ k d = Inl AttributeError"

text \<open>\<^verbatim>\<open>v.values()\<close>.\<close>

fun dict_values :: "json \<Rightarrow> error + json list" where
  "dict_values (JObj kvs) = Inr (map snd kvs)"
| "dict_values _ = Inl AttributeError"

fun is_substring :: "string \<Rightarrow> string \<Rightarrow> bool" where
  "is_substring s [] = (s = [])"
| "is_substring s (c # cs) = (prefix s (c # cs) \<or> is_substring s cs)"

text \<open>\<^verbatim>\<open>s in v\<close> for a string \<^verbatim>\<open>s\<close>: substring test on a string, membership in a list,
  key membership in a dict, \<^verbatim>\<open>TypeError\<close> otherwise.\<close>

fun py_in :: "string \<Rightarrow> json \<Rightarrow> error + bool" where
  "py_in s (JStr t) = Inr (is_substring s t)"
| "py_in s (JArr xs) = Inr (JStr s \<in> set xs)"
| "py_in s (JObj kvs) = Inr (s \<in> fst ` set kvs)"
| "py_in s _ = Inl TypeError"

text \<open>
  \<^verbatim>\<open>response.json()\<close>: a body that is not a JSON document raises
  \<^verbatim>\<open>requests.exceptions.JSONDecodeError\<close>, a \<^verbatim>\<open>RequestException\<close> (requests 2.27 and
  later).
\<close>

definition response_json :: "response \<Rightarrow> error + json" where
  "response_json r = (case body r of None \<Rightarrow> Inl (RequestException JSONDecodeError) | Some j \<Rightarrow> Inr j)"

text \<open>\<^verbatim>\<open>response.raise_for_status()\<close> of the requests library raises \<^verbatim>\<open>HTTPError\<close> for
  the status codes 400 to 599 and for no other.\<close>

definition raise_for_status :: "response \<Rightarrow> error + unit" where
  "raise_for_status r =
     (if 400 \<le> status_code r \<and> status_code r < 600
      then Inl (RequestException (HTTPError (status_code r))) else Inr ())"

section \<open>The rate limiter\<close>

text \<open>
  \<^verbatim>\<open>_rate_limit_check\<close> (lines 23 to 28): read the clock; if the float
  \<^verbatim>\<open>current_time - self.last_request_time\<close> is less than the float
  \<^verbatim>\<open>60/self.rate_limit\<close>, sleep for the float difference of the two; read the clock again
  and store it. The division raises when the budget is zero. All three operations are
  rounded.
\<close>

definition rate_limit_check :: "env \<Rightarrow> world \<Rightarrow> (error + unit) \<times> world" where
  "rate_limit_check env w =
     (let (current_time, w1) = time_time env w in
      if rate_limit w1 = 0 then (Inl ZeroDivisionError, w1)
      else
        let elapsed = float_sub current_time (last_request_time w1);
            interval = true_div 60 (rate_limit w1) in
        case (if elapsed < interval then time_sleep RateLimit (float_sub interval elapsed) w1
              else (Inr (), w1)) of
          (Inl e, w2) \<Rightarrow> (Inl e, w2)
        | (Inr _, w2) \<Rightarrow>
            (let (t, w3) = time_time env w2 in (Inr (), w3\<lparr>last_request_time := t\<rparr>)))"

section \<open>The request pipeline\<close>

definition max_retries :: nat where
  "max_retries = 5"

definition base_delay :: nat where
  "base_delay = 1"

text \<open>Line 55: \<^verbatim>\<open>base_delay * (2 ** attempt) + random.uniform(0, 1)\<close>. The product is a
  product of \<^verbatim>\<open>int\<close>s and exact; the sum converts it to a float and adds the jitter, a
  float, with one rounding.\<close>

definition backoff_delay :: "nat \<Rightarrow> rat \<Rightarrow> rat" where
  "backoff_delay attempt jitter = float_add (float_of_int (int (base_delay * 2 ^ attempt))) jitter"

text \<open>
  The handling of a 401 (lines 41 to 46): the message is
  \<^verbatim>\<open>response.json().get('status', {}).get('error_message', 'Unauthorized')\<close>; it is
  printed; the indicator raises \<^verbatim>\<open>ValueError\<close>, anything else returns \<^verbatim>\<open>None\<close>.
\<close>

definition error_message :: "response \<Rightarrow> error + json" where
  "error_message r =
     (case response_json r of
        Inl e \<Rightarrow> Inl e
      | Inr j \<Rightarrow>
          (case dict_get j ''status'' (JObj []) of
             Inl e \<Rightarrow> Inl e
           | Inr st \<Rightarrow> dict_get st ''error_message'' (JStr ''Unauthorized'')))"

definition handle_401 :: "response \<Rightarrow> world \<Rightarrow> (error + response option) \<times> world" where
  "handle_401 r w =
     (case error_message r of
        Inl e \<Rightarrow> (Inl e, w)
      | Inr error_msg \<Rightarrow>
          (let w1 = emit (PrintApiError error_msg) w in
           case py_in ''Invalid API key'' error_msg of
             Inl e \<Rightarrow> (Inl e, w1)
           | Inr True \<Rightarrow> (Inl (ValueError ''Invalid API key - please check your .env file''), w1)
           | Inr False \<Rightarrow> (Inr None, w1)))"

text \<open>The body of the \<^verbatim>\<open>try\<close> of one attempt (lines 37 to 49).\<close>

definition try_request :: "env \<Rightarrow> world \<Rightarrow> (error + response option) \<times> world" where
  "try_request env w =
     (case rate_limit_check env w of
        (Inl e, w1) \<Rightarrow> (Inl e, w1)
      | (Inr _, w1) \<Rightarrow>
          (case requests_get env w1 of
             (Inl e, w2) \<Rightarrow> (Inl e, w2)
           | (Inr r, w2) \<Rightarrow>
               if status_code r = 401 then handle_401 r w2
               else (case raise_for_status r of
                       Inl e \<Rightarrow> (Inl e, w2)
                     | Inr _ \<Rightarrow> (Inr (Some r), w2))))"

text \<open>
  The loop \<^verbatim>\<open>for attempt in range(max_retries)\<close> from the iteration \<^verbatim>\<open>attempt\<close> on.
  Only a \<^verbatim>\<open>RequestException\<close> is caught: on the last attempt it is raised again, before
  that the handler draws the jitter, prints, sleeps and goes on. A loop that runs out
  without returning makes the function return \<^verbatim>\<open>None\<close>.
\<close>

function retry_loop :: "env \<Rightarrow> nat \<Rightarrow> nat \<Rightarrow> world \<Rightarrow> (error + response option) \<times> world" where
  "retry_loop env mr attempt w =
     (if mr \<le> attempt then (Inr None, w)
      else
        (case try_request env w of
           (Inl (RequestException e), w1) \<Rightarrow>
             if attempt = mr - 1 then (Inl (RequestException e), w1)
             else
               (let (jitter, w2) = random_uniform env w1;
                    delay = backoff_delay attempt jitter;
                    w3 = emit (PrintRetry (attempt + 1) mr delay) w2 in
                case time_sleep Backoff delay w3 of
                  (Inl e', w4) \<Rightarrow> (Inl e', w4)
                | (Inr _, w4) \<Rightarrow> retry_loop env mr (attempt + 1) w4)
         | (res, w1) \<Rightarrow> (res, w1)))"
  by pat_completeness auto
termination
  by (relation "measure (\<lambda>(env, mr, attempt, w). mr - attempt)") auto

declare retry_loop.simps [simp del]

definition make_api_request :: "env \<Rightarrow> world \<Rightarrow> (error + response option) \<times> world" where
  "make_api_request env w = retry_loop env max_retries 0 w"

section \<open>The market data client\<close>

text \<open>Sequencing of steps that may raise: the first exception ends the computation.\<close>

definition and_then :: "error + 'a \<Rightarrow> ('a \<Rightarrow> error + 'b) \<Rightarrow> error + 'b" where
  "and_then m f = (case m of Inl e \<Rightarrow> Inl e | Inr x \<Rightarrow> f x)"

fun map_e :: "('a \<Rightarrow> error + 'b) \<Rightarrow> 'a list \<Rightarrow> error + 'b list" where
  "map_e f [] = Inr []"
| "map_e f (x # xs) = and_then (f x) (\<lambda>y. and_then (map_e f xs) (\<lambda>ys. Inr (y # ys)))"

type_synonym row = "(string \<times> json) list"

text \<open>\<^verbatim>\<open>token['quote']['USD'][k]\<close> and \<^verbatim>\<open>token['quote']['USD'].get(k, None)\<close>.\<close>

definition usd_field :: "json \<Rightarrow> string \<Rightarrow> error + json" where
  "usd_field token k =
     and_then (subscript token ''quote'') (\<lambda>q.
     and_then (subscript q ''USD'') (\<lambda>u. subscript u k))"

definition usd_get :: "json \<Rightarrow> string \<Rightarrow> error + json" where
  "usd_get token k =
     and_then (subscript token ''quote'') (\<lambda>q.
     and_then (subscript q ''USD'') (\<lambda>u. dict_get u k JNull))"

text \<open>The dict display of lines 70 to 79; its items are evaluated in the order written.\<close>

definition token_row :: "json \<Rightarrow> error + row" where
  "token_row token =
     and_then (subscript token ''symbol'') (\<lambda>symbol.
     and_then (subscript token ''name'') (\<lambda>name.
     and_then (subscript token ''cmc_rank'') (\<lambda>rank.
     and_then (usd_field token ''price'') (\<lambda>price.
     and_then (usd_field token ''percent_change_7d'') (\<lambda>c7.
     and_then (usd_field token ''percent_change_30d'') (\<lambda>c30.
     and_then (usd_field token ''percent_change_90d'') (\<lambda>c90.
     and_then (usd_get token ''percent_change_1y'') (\<lambda>c1y.
     Inr [(''symbol'', symbol), (''name'', name), (''rank'', rank), (''price'', price),
          (''7d_change'', c7), (''30d_change'', c30), (''90d_change'', c90),
          (''1y_change'', c1y)]))))))))"

text \<open>
  \<^verbatim>\<open>get_token_data\<close>. The parameter \<^verbatim>\<open>symbols\<close> only goes into the query string. A
  \<^verbatim>\<open>None\<close> from the pipeline has no method \<^verbatim>\<open>json\<close>. The two handlers catch
  \<^verbatim>\<open>RequestException\<close> and \<^verbatim>\<open>KeyError\<close>; every other exception leaves the function.
\<close>

definition parse_token_data :: "response option \<Rightarrow> error + row list" where
  "parse_token_data response =
     and_then (case response of None \<Rightarrow> Inl AttributeError | Some r \<Rightarrow> response_json r) (\<lambda>j.
     and_then (subscript j ''data'') (\<lambda>data.
     and_then (dict_values data) (map_e token_row)))"

definition get_token_data :: "env \<Rightarrow> string list \<Rightarrow> world \<Rightarrow> (error + row list option) \<times> world" where
  "get_token_data env symbols w =
     (case make_api_request env w of
        (res, w1) \<Rightarrow>
          (case and_then res parse_token_data of
             Inl (RequestException e) \<Rightarrow> (Inr None, emit (PrintRequestFailed e) w1)
           | Inl (KeyError k) \<Rightarrow> (Inr None, emit (PrintInvalidFormat k) w1)
           | Inl e \<Rightarrow> (Inl e, w1)
           | Inr rows \<Rightarrow> (Inr (Some rows), w1)))"

subsection \<open>Ranking\<close>

text \<open>
  \<^verbatim>\<open>sorted\<close> computes the key of every element first and then compares keys with
  \<^verbatim>\<open>&lt;\<close>. Numbers (and booleans, which are integers in Python) compare by value and the
  sort is stable, also with \<^verbatim>\<open>reverse=True\<close>. No comparison is made on fewer than two
  elements. With two or more, a key that is \<^verbatim>\<open>None\<close> or a dict makes some comparison
  raise \<^verbatim>\<open>TypeError\<close>. Keys that are strings or lists are left unmodelled.
\<close>

fun sort_key_num :: "json \<Rightarrow> rat option" where
  "sort_key_num (JNum r) = Some r"
| "sort_key_num (JBool b) = Some (if b then 1 else 0)"
| "sort_key_num _ = None"

fun never_ordered :: "json \<Rightarrow> bool" where
  "never_ordered JNull = True"
| "never_ordered (JObj kvs) = True"
| "never_ordered _ = False"

definition py_sorted :: "bool \<Rightarrow> (json \<times> 'a) list \<Rightarrow> error + 'a list" where
  "py_sorted reverse kxs =
     (if length kxs \<le> 1 then Inr (map snd kxs)
      else if list_all (\<lambda>(k, x). sort_key_num k \<noteq> None) kxs
      then Inr (map snd (sort_key (\<lambda>(k, x). if reverse then - the (sort_key_num k)
                                               else the (sort_key_num k)) kxs))
      else if list_ex (\<lambda>(k, x). never_ordered k) kxs then Inl TypeError
      else Inl Unmodelled)"

definition sorted_by :: "(json \<Rightarrow> error + json) \<Rightarrow> bool \<Rightarrow> json list \<Rightarrow> error + json list" where
  "sorted_by key reverse xs =
     and_then (map_e (\<lambda>x. and_then (key x) (\<lambda>k. Inr (k, x))) xs) (py_sorted reverse)"

text \<open>The slices \<^verbatim>\<open>xs[:k]\<close> and \<^verbatim>\<open>xs[s:]\<close> for any integers; a negative bound counts
  from the end and is clipped at the start of the list.\<close>

definition slice_to :: "int \<Rightarrow> 'a list \<Rightarrow> 'a list" where
  "slice_to k xs = (if 0 \<le> k then take (nat k) xs else take (length xs - nat (- k)) xs)"

definition slice_from :: "int \<Rightarrow> 'a list \<Rightarrow> 'a list" where
  "slice_from s xs = (if 0 \<le> s then drop (nat s) xs else drop (length xs - nat (- s)) xs)"

text \<open>\<^verbatim>\<open>data[:100]\<close> as the sequence that \<^verbatim>\<open>sorted\<close> then iterates: the elements of a
  list, the one-character strings of a string. Nothing else can be sliced.\<close>

fun first_100 :: "json \<Rightarrow> error + json list" where
  "first_100 (JArr xs) = Inr (take 100 xs)"
| "first_100 (JStr s) = Inr (map (\<lambda>c. JStr [c]) (take 100 s))"
| "first_100 _ = Inl TypeError"

text \<open>The dict display of lines 117 to 125 and of lines 128 to 136.\<close>

definition listing_row :: "json \<Rightarrow> error + row" where
  "listing_row token =
     and_then (subscript token ''symbol'') (\<lambda>symbol.
     and_then (subscript token ''name'') (\<lambda>name.
     and_then (subscript token ''cmc_rank'') (\<lambda>rank.
     and_then (usd_field token ''price'') (\<lambda>price.
     and_then (usd_field token ''percent_change_7d'') (\<lambda>c7.
     and_then (usd_field token ''percent_change_30d'') (\<lambda>c30.
     and_then (usd_field token ''percent_change_90d'') (\<lambda>c90.
     Inr [(''symbol'', symbol), (''name'', name), (''rank'', rank), (''price'', price),
          (''7d_change'', c7), (''30d_change'', c30), (''90d_change'', c90)])))))))"

text \<open>Lines 104 to 138: the part of \<^verbatim>\<open>get_top_performers\<close> after the fetch.\<close>

definition rank_performers :: "response \<Rightarrow> int \<Rightarrow> error + (row list \<times> row list)" where
  "rank_performers r top_k =
     and_then (response_json r) (\<lambda>j.
     and_then (subscript j ''data'') (\<lambda>data.
     and_then (first_100 data) (\<lambda>first.
     and_then (sorted_by (\<lambda>x. subscript x ''cmc_rank'') False first) (\<lambda>top_100.
     and_then (sorted_by (\<lambda>x. usd_field x ''percent_change_7d'') True top_100) (\<lambda>sorted_by_performance.
     and_then (map_e listing_row (slice_to top_k sorted_by_performance)) (\<lambda>best.
     and_then (map_e listing_row (slice_from (- top_k) sorted_by_performance)) (\<lambda>worst.
     Inr (best, worst))))))))"

text \<open>
  \<^verbatim>\<open>get_top_performers\<close>, with \<^verbatim>\<open>top_k\<close> for the parameter \<^verbatim>\<open>top\<close>;
  \<^verbatim>\<open>limit\<close> only goes into the query string. The handler
  \<^verbatim>\<open>except Exception\<close> catches whatever the fetch or the ranking raises, prints it and
  returns \<^verbatim>\<open>None\<close>.
\<close>

definition get_top_performers ::
  "env \<Rightarrow> int \<Rightarrow> int \<Rightarrow> world \<Rightarrow> (error + (row list \<times> row list) option) \<times> world" where
  "get_top_performers env limit top_k w =
     (case make_api_request env w of
        (Inl e, w1) \<Rightarrow> (Inr None, emit (PrintTopError e) w1)
      | (Inr None, w1) \<Rightarrow> (Inr None, w1)
      | (Inr (Some r), w1) \<Rightarrow>
          (case rank_performers r top_k of
             Inl Unmodelled \<Rightarrow> (Inl Unmodelled, w1)
           | Inl e \<Rightarrow> (Inr None, emit (PrintTopError e) w1)
           | Inr res \<Rightarrow> (Inr (Some res), w1)))"

section \<open>Vocabulary of the properties\<close>

text \<open>The events of a run that are HTTP calls or backoff sleeps, in order.\<close>

definition observed :: "event list \<Rightarrow> event list" where
  "observed tr =
     filter (\<lambda>e. case e of HttpGet \<Rightarrow> True | Sleep Backoff d \<Rightarrow> True | _ \<Rightarrow> False) tr"

text \<open>\<^verbatim>\<open>random.uniform(0, 1)\<close> draws from [0, 1).\<close>

definition jitters_ok :: "env \<Rightarrow> bool" where
  "jitters_ok env = (\<forall>k. 0 \<le> jitters env k \<and> jitters env k < 1)"

text \<open>An outcome that the pipeline retries: \<^verbatim>\<open>requests.get\<close> raised, or the status is
  one that \<^verbatim>\<open>raise_for_status\<close> rejects and is not 401. \<^verbatim>\<open>raised_by\<close> is the exception.\<close>

fun transient :: "http_outcome \<Rightarrow> bool" where
  "transient (NetworkFailure m) = True"
| "transient (Response r) = (status_code r \<noteq> 401 \<and> 400 \<le> status_code r \<and> status_code r < 600)"

fun raised_by :: "http_outcome \<Rightarrow> request_exception" where
  "raised_by (NetworkFailure m) = ConnectionError m"
| "raised_by (Response r) = HTTPError (status_code r)"

text \<open>
  All the outcomes that the pipeline retries, and the \<^verbatim>\<open>RequestException\<close> that each
  raises inside the \<^verbatim>\<open>try\<close>: to the transient ones comes the 401 whose body is no JSON
  document, on which \<^verbatim>\<open>response.json()\<close> raises (line 42).
\<close>

fun retried :: "http_outcome \<Rightarrow> bool" where
  "retried (NetworkFailure m) = True"
| "retried (Response r) =
     (if status_code r = 401 then body r = None
      else 400 \<le> status_code r \<and> status_code r < 600)"

fun retry_exception :: "http_outcome \<Rightarrow> request_exception" where
  "retry_exception (NetworkFailure m) = ConnectionError m"
| "retry_exception (Response r) =
     (if status_code r = 401 then JSONDecodeError else HTTPError (status_code r))"

text \<open>What \<^verbatim>\<open>n\<close> failed attempts leave in the trace, starting at iteration \<^verbatim>\<open>attempt\<close>
  and at jitter draw \<^verbatim>\<open>d\<close>: each an HTTP call followed by its backoff sleep.\<close>

fun retries :: "env \<Rightarrow> nat \<Rightarrow> nat \<Rightarrow> nat \<Rightarrow> event list" where
  "retries env attempt d 0 = []"
| "retries env attempt d (Suc n) =
     HttpGet # Sleep Backoff (backoff_delay attempt (jitters env d))
       # retries env (Suc attempt) (Suc d) n"

text \<open>
  The attempt of index \<^verbatim>\<open>n\<close> of a call of \<^verbatim>\<open>_make_api_request\<close> is made (the attempts
  before it were all retried) and receives the response \<^verbatim>\<open>r\<close>; and a response that the
  pipeline returns to its caller: not a 401, and accepted by \<^verbatim>\<open>raise_for_status\<close>.
\<close>

definition receives :: "env \<Rightarrow> world \<Rightarrow> nat \<Rightarrow> response \<Rightarrow> bool" where
  "receives env w n r =
     (n < max_retries \<and> (\<forall>i\<in>{0..<n}. retried (responses env (http_calls w + i)))
      \<and> responses env (http_calls w + n) = Response r)"

definition accepted :: "response \<Rightarrow> bool" where
  "accepted r = (status_code r \<noteq> 401 \<and> raise_for_status r = Inr ())"

subsection \<open>Token records\<close>

text \<open>
  The field \<^verbatim>\<open>k\<close> of a payload value, when the value is an object that has it, and the
  field \<^verbatim>\<open>k\<close> of the USD quote of a token, \<^verbatim>\<open>token['quote']['USD'][k]\<close>, when all three
  are there.
\<close>

definition lookup :: "json \<Rightarrow> string \<Rightarrow> json option" where
  "lookup j k = (case j of JObj kvs \<Rightarrow> map_of kvs k | _ \<Rightarrow> None)"

definition usd_lookup :: "json \<Rightarrow> string \<Rightarrow> json option" where
  "usd_lookup token k =
     (case lookup token ''quote'' of
        None \<Rightarrow> None
      | Some q \<Rightarrow> (case lookup q ''USD'' of None \<Rightarrow> None | Some u \<Rightarrow> lookup u k))"

text \<open>The seven required fields of a token record; a record misses a required field when
  one of them is not there.\<close>

definition required_fields :: "json \<Rightarrow> json option list" where
  "required_fields token =
     [lookup token ''symbol'', lookup token ''name'', lookup token ''cmc_rank'',
      usd_lookup token ''price'', usd_lookup token ''percent_change_7d'',
      usd_lookup token ''percent_change_30d'', usd_lookup token ''percent_change_90d'']"

definition missing_required :: "json \<Rightarrow> bool" where
  "missing_required token = (None \<in> set (required_fields token))"

text \<open>A value with the shape of a token record: an object whose \<^verbatim>\<open>quote\<close>, if it has one,
  is an object whose \<^verbatim>\<open>USD\<close>, if it has one, is an object. Fields may be missing.\<close>

fun is_obj :: "json \<Rightarrow> bool" where
  "is_obj (JObj kvs) = True"
| "is_obj _ = False"

definition record_shaped :: "json \<Rightarrow> bool" where
  "record_shaped token =
     (is_obj token
      \<and> (case lookup token ''quote'' of
           None \<Rightarrow> True
         | Some q \<Rightarrow> is_obj q \<and> (case lookup q ''USD'' of None \<Rightarrow> True | Some u \<Rightarrow> is_obj u)))"

text \<open>The keys whose absence makes a record miss a required field.\<close>

definition required_keys :: "string list" where
  "required_keys = [''symbol'', ''name'', ''cmc_rank'', ''quote'', ''USD'', ''price'',
     ''percent_change_7d'', ''percent_change_30d'', ''percent_change_90d'']"

text \<open>
  The normalized token of the specification, stated on the record itself: the seven
  required fields under their new names, and the 1-year change, which is \<^verbatim>\<open>None\<close> when the
  record has none. The listing of the top performers has the first seven only.
\<close>

definition listing_token :: "json \<Rightarrow> row" where
  "listing_token token =
     [(''symbol'', the (lookup token ''symbol'')), (''name'', the (lookup token ''name'')),
      (''rank'', the (lookup token ''cmc_rank'')), (''price'', the (usd_lookup token ''price'')),
      (''7d_change'', the (usd_lookup token ''percent_change_7d'')),
      (''30d_change'', the (usd_lookup token ''percent_change_30d'')),
      (''90d_change'', the (usd_lookup token ''percent_change_90d''))]"

definition normalized_token :: "json \<Rightarrow> row" where
  "normalized_token token =
     listing_token token
       @ [(''1y_change'', case usd_lookup token ''percent_change_1y'' of None \<Rightarrow> JNull | Some v \<Rightarrow> v)]"

subsection \<open>Concrete runs\<close>

text \<open>The state of a fresh \<^verbatim>\<open>CryptoReport\<close> with the default budget of 30, responses given
  by their JSON body, and an environment whose clock reads 1000, 1001, and so on.\<close>

definition clock0 :: world where
  "clock0 = \<lparr>reads = 0, last_request_time = 0, rate_limit = 30,
             http_calls = 0, draws = 0, trace = []\<rparr>"

definition unauthorized_body :: "json \<Rightarrow> response" where
  "unauthorized_body j = \<lparr>status_code = 401, body = Some j\<rparr>"

definition success_body :: "json \<Rightarrow> response" where
  "success_body j = \<lparr>status_code = 200, body = Some j\<rparr>"

definition unauthorized :: "string \<Rightarrow> response" where
  "unauthorized msg =
     \<lparr>status_code = 401,
      body = Some (JObj [(''status'', JObj [(''error_message'', JStr msg)])])\<rparr>"

definition env_of :: "(nat \<Rightarrow> http_outcome) \<Rightarrow> env" where
  "env_of rs = \<lparr>responses = rs, jitters = (\<lambda>k. 1 / 2), clock = (\<lambda>k. 1000 + of_nat k)\<rparr>"

definition env_with_jitter :: "rat \<Rightarrow> (nat \<Rightarrow> http_outcome) \<Rightarrow> env" where
  "env_with_jitter j rs = \<lparr>responses = rs, jitters = (\<lambda>k. j), clock = (\<lambda>k. 1000 + of_nat k)\<rparr>"

text \<open>Token records for the concrete runs: a complete one, with or without the 1-year
  change, and one without a price.\<close>

definition quote_of :: "(string \<times> json) list \<Rightarrow> json" where
  "quote_of kvs = JObj [(''USD'', JObj kvs)]"

definition btc :: json where
  "btc = JObj [(''symbol'', JStr ''BTC''), (''name'', JStr ''Bitcoin''), (''cmc_rank'', JNum 1),
     (''quote'', quote_of [(''price'', JNum 65000), (''percent_change_7d'', JNum 3),
        (''percent_change_30d'', JNum (- 2)), (''percent_change_90d'', JNum 10),
        (''percent_change_1y'', JNum 120)])]"

definition eth :: json where
  "eth = JObj [(''symbol'', JStr ''ETH''), (''name'', JStr ''Ethereum''), (''cmc_rank'', JNum 2),
     (''quote'', quote_of [(''price'', JNum 3200), (''percent_change_7d'', JNum (- 1)),
        (''percent_change_30d'', JNum 4), (''percent_change_90d'', JNum 7)])]"

definition no_price :: json where
  "no_price = JObj [(''symbol'', JStr ''XRP''), (''name'', JStr ''XRP''), (''cmc_rank'', JNum 3),
     (''quote'', quote_of [(''percent_change_7d'', JNum 5),
        (''percent_change_30d'', JNum 1), (''percent_change_90d'', JNum 2)])]"

definition no_rank :: json where
  "no_rank = JObj [(''symbol'', JStr ''SOL''), (''name'', JStr ''Solana''),
     (''quote'', quote_of [(''price'', JNum 150), (''percent_change_7d'', JNum 8),
        (''percent_change_30d'', JNum 1), (''percent_change_90d'', JNum 2)])]"

text \<open>The payloads of the two endpoints: an object keyed by symbol, and a list.\<close>

definition quotes_payload :: "(string \<times> json) list \<Rightarrow> response" where
  "quotes_payload kvs = success_body (JObj [(''data'', JObj kvs)])"

definition listing_payload :: "json list \<Rightarrow> response" where
  "listing_payload xs = success_body (JObj [(''data'', JArr xs)])"

section \<open>Rounding to a double\<close>

lemma round_even_of_int [simp]: "round_even (of_int m) = m"
  by (simp add: round_even_def)

lemma round_even_floor: "\<lfloor>q\<rfloor> \<le> round_even q \<and> round_even q \<le> \<lfloor>q\<rfloor> + 1"
  by (simp add: round_even_def Let_def)

lemma round_even_ge: "of_int m \<le> q \<Longrightarrow> m \<le> round_even q"
proof -
  assume "of_int m \<le> q"
  then have "m \<le> \<lfloor>q\<rfloor>"
    by (simp add: le_floor_iff)
  then show ?thesis
    using round_even_floor [of q] by linarith
qed

lemma round_even_le: "q \<le> of_int m \<Longrightarrow> round_even q \<le> m"
proof (cases "q = of_int m")
  case True
  then show ?thesis by simp
next
  case False
  assume "q \<le> of_int m"
  then have "q < of_int m"
    using False by simp
  then have "\<lfloor>q\<rfloor> < m"
    by (simp add: floor_less_iff)
  then show ?thesis
    using round_even_floor [of q] by linarith
qed

lemma round_even_near: "\<bar>of_int (round_even q) - q\<bar> \<le> 1 / 2"
proof -
  define d where "d = q - of_int \<lfloor>q\<rfloor>"
  have d: "0 \<le> d" "d < 1"
    unfolding d_def by linarith+
  have q: "q = of_int \<lfloor>q\<rfloor> + d"
    by (simp add: d_def)
  consider "d < 1 / 2" | "1 / 2 < d" | "d = 1 / 2"
    by linarith
  then show ?thesis
  proof cases
    case 1
    then have "round_even q = \<lfloor>q\<rfloor>"
      by (simp add: round_even_def Let_def d_def)
    then show ?thesis
      using 1 d q by simp
  next
    case 2
    then have "round_even q = \<lfloor>q\<rfloor> + 1"
      by (simp add: round_even_def Let_def d_def)
    then show ?thesis
      using 2 d q by simp
  next
    case 3
    then have "round_even q = \<lfloor>q\<rfloor> \<or> round_even q = \<lfloor>q\<rfloor> + 1"
      by (simp add: round_even_def Let_def d_def)
    then show ?thesis
      using 3 q by auto
  qed
qed

lemma pow2_pos: "0 < pow2 k"
  by (simp add: pow2_def)

lemma ulp_of_pos: "0 < ulp_of x"
  by (simp add: ulp_of_def pow2_pos)

lemma round_double_nonneg: "0 \<le> x \<Longrightarrow> 0 \<le> round_double x"
proof -
  assume x: "0 \<le> x"
  have "0 \<le> x / ulp_of x"
    using x ulp_of_pos [of x] by simp
  then have "0 \<le> round_even (x / ulp_of x)"
    using round_even_ge [of 0 "x / ulp_of x"] by simp
  then show ?thesis
    using x ulp_of_pos [of x] by (simp add: round_double_def)
qed

lemma ilog2_bounds: "2 ^ a \<le> n \<Longrightarrow> n < 2 ^ Suc a \<Longrightarrow> ilog2 n = a"
proof (induction a arbitrary: n)
  case 0
  then show ?case by (simp add: ilog2.simps)
next
  case (Suc a)
  have "2 ^ a \<le> n div 2" "n div 2 < 2 ^ Suc a"
    using Suc.prems by auto
  then have "ilog2 (n div 2) = a"
    using Suc.IH by blast
  moreover have "\<not> n < 2"
  proof -
    have "(1::nat) \<le> 2 ^ a" by simp
    moreover have "2 * 2 ^ a \<le> n" using Suc.prems(1) by simp
    ultimately show ?thesis by linarith
  qed
  ultimately show ?case
    by (subst ilog2.simps) simp
qed

lemma binade_bounds:
  assumes "2 ^ a \<le> x" "x < 2 ^ Suc a"
  shows "binade x = int a"
proof -
  have "(1::rat) \<le> 2 ^ a"
    by simp
  then have one: "1 \<le> x"
    using assms(1) by linarith
  have f0: "0 \<le> \<lfloor>x\<rfloor>"
    using one by simp
  have f1: "(2::int) ^ a \<le> \<lfloor>x\<rfloor>"
    using assms(1) by (simp add: le_floor_iff)
  have f2: "\<lfloor>x\<rfloor> < (2::int) ^ Suc a"
    using assms(2) by (simp add: floor_less_iff)
  have "2 ^ a \<le> nat \<lfloor>x\<rfloor>"
    using f0 f1 by (simp add: le_nat_iff)
  moreover have "nat \<lfloor>x\<rfloor> < 2 ^ Suc a"
    using f0 f2 by (simp add: nat_less_iff)
  ultimately have "ilog2 (nat \<lfloor>x\<rfloor>) = a"
    by (rule ilog2_bounds)
  then show ?thesis
    using one by (simp add: binade_def)
qed

lemma ulp_of_binade:
  assumes "2 ^ a \<le> x" "x < 2 ^ Suc a" "a \<le> 52"
  shows "ulp_of x = 2 ^ a / 2 ^ 52"
proof -
  have b: "binade x = int a"
    using binade_bounds [OF assms(1,2)] .
  have "pow2 (int a - 52) = 2 ^ a / 2 ^ 52"
  proof (cases "a = 52")
    case True
    then show ?thesis by (simp add: pow2_def)
  next
    case False
    then have lt: "a < 52" using assms(3) by simp
    then have n: "nat (52 - int a) = 52 - a" by simp
    have "(2::rat) ^ (52 - a) = 2 ^ 52 / 2 ^ a"
      using lt by (simp add: power_diff)
    then show ?thesis
      using lt n by (simp add: pow2_def)
  qed
  then show ?thesis
    using b by (simp add: ulp_of_def max_def)
qed

lemma round_double_binade:
  assumes "2 ^ a \<le> x" "x < 2 ^ Suc a" "a \<le> 52"
  shows "round_double x = of_int (round_even (x / (2 ^ a / 2 ^ 52))) * (2 ^ a / 2 ^ 52)"
proof -
  have "(0::rat) < 2 ^ a" by simp
  then have pos: "0 < x" using assms(1) by linarith
  have "round_double x = of_int (round_even (x / ulp_of x)) * ulp_of x"
    using pos by (simp add: round_double_def)
  then show ?thesis
    by (simp only: ulp_of_binade [OF assms])
qed

lemma round_double_in_binade:
  assumes "2 ^ a \<le> x" "x \<le> 2 ^ a + 1" "x < 2 ^ Suc a" "a \<le> 52"
  shows "2 ^ a \<le> round_double x \<and> round_double x \<le> 2 ^ a + 1
     \<and> \<bar>round_double x - x\<bar> \<le> 2 ^ a / 2 ^ 53"
proof -
  define u :: rat where "u = 2 ^ a / 2 ^ 52"
  define q where "q = x / u"
  define P :: int where "P = 2 ^ 52"
  define Q :: int where "Q = 2 ^ (52 - a)"
  have u: "0 < u" by (simp add: u_def)
  have xq: "x = q * u" using u by (simp add: q_def)
  have r: "round_double x = of_int (round_even q) * u"
    using round_double_binade [OF assms(1,3,4)] by (simp only: q_def u_def)
  have Pu: "of_int P * u = 2 ^ a"
    by (simp add: P_def u_def)
  have "(2::rat) ^ (52 - a) = 2 ^ 52 / 2 ^ a"
    using assms(4) by (simp add: power_diff)
  then have Qu: "of_int Q * u = 1"
    by (simp add: Q_def u_def)
  have lo: "of_int P \<le> q"
  proof -
    have "of_int P * u \<le> q * u"
      using assms(1) Pu xq by simp
    then show ?thesis
      using u by simp
  qed
  have hi: "q \<le> of_int (P + Q)"
  proof -
    have "of_int (P + Q) * u = 2 ^ a + 1"
      using Pu Qu by (simp add: distrib_right)
    then have "q * u \<le> of_int (P + Q) * u"
      using assms(2) xq by simp
    then show ?thesis
      using u by simp
  qed
  have l: "of_int P \<le> (of_int (round_even q) :: rat)"
    using round_even_ge [OF lo] by simp
  have h: "(of_int (round_even q) :: rat) \<le> of_int (P + Q)"
    using round_even_le [OF hi] by (simp only: of_int_le_iff)
  have c1: "2 ^ a \<le> round_double x"
  proof -
    have "of_int P * u \<le> of_int (round_even q) * u"
      using l u by simp
    then show ?thesis
      using Pu r by simp
  qed
  have c2: "round_double x \<le> 2 ^ a + 1"
  proof -
    have "of_int (round_even q) * u \<le> of_int (P + Q) * u"
      using h u by (simp only: mult_le_cancel_right_pos)
    moreover have "of_int (P + Q) * u = 2 ^ a + 1"
      using Pu Qu by (simp add: distrib_right)
    ultimately show ?thesis
      using r by simp
  qed
  have c3: "\<bar>round_double x - x\<bar> \<le> 2 ^ a / 2 ^ 53"
  proof -
    have "round_double x - x = (of_int (round_even q) - q) * u"
      using r xq by (simp add: left_diff_distrib)
    then have "\<bar>round_double x - x\<bar> = \<bar>of_int (round_even q) - q\<bar> * u"
      using u by (simp add: abs_mult)
    also have "\<dots> \<le> (1 / 2) * u"
      using round_even_near [of q] u by (simp only: mult_le_cancel_right_pos)
    also have "(1 / 2) * u = 2 ^ a / 2 ^ 53"
      by (simp add: u_def)
    finally show ?thesis .
  qed
  show ?thesis
    using c1 c2 c3 by simp
qed

lemma round_double_power: "a \<le> 52 \<Longrightarrow> round_double (2 ^ a) = 2 ^ a"
proof -
  assume a: "a \<le> 52"
  have "(2::rat) ^ a / (2 ^ a / 2 ^ 52) = of_int (2 ^ 52)"
    by simp
  then have "round_even ((2::rat) ^ a / (2 ^ a / 2 ^ 52)) = 2 ^ 52"
    by (simp only: round_even_of_int)
  then have "round_double (2 ^ a) = of_int (2 ^ 52) * (2 ^ a / 2 ^ 52)"
    using round_double_binade [of a "2 ^ a"] a by simp
  then show ?thesis
    by simp
qed

lemma backoff_delay_nonneg: "0 \<le> j \<Longrightarrow> 0 \<le> backoff_delay a j"
proof -
  assume j: "0 \<le> j"
  have "0 \<le> float_of_int (int (base_delay * 2 ^ a))"
    unfolding float_of_int_def by (rule round_double_nonneg) simp
  then show ?thesis
    unfolding backoff_delay_def float_add_def using j by (intro round_double_nonneg) simp
qed

lemma backoff_delay_rounds:
  assumes "a \<le> 52"
  shows "backoff_delay a j = round_double (2 ^ a + j)"
  using round_double_power [OF assms]
  by (simp add: backoff_delay_def float_add_def float_of_int_def base_delay_def)

lemma backoff_delay_bounds:
  assumes "0 \<le> j" "j < 1" "a \<le> 52"
  shows "of_nat (base_delay * 2 ^ a) \<le> backoff_delay a j
     \<and> backoff_delay a j \<le> of_nat (base_delay * 2 ^ a) + 1
     \<and> \<bar>backoff_delay a j - (of_nat (base_delay * 2 ^ a) + j)\<bar> \<le> 2 ^ a / 2 ^ 53"
proof -
  have "(1::rat) \<le> 2 ^ a" by simp
  then have "j < 2 ^ a"
    using assms(2) by linarith
  then have x: "2 ^ a \<le> 2 ^ a + j" "2 ^ a + j \<le> 2 ^ a + 1" "2 ^ a + j < 2 ^ Suc a"
    using assms(1,2) by simp_all
  show ?thesis
    using round_double_in_binade [OF x assms(3)] backoff_delay_rounds [OF assms(3), of j]
    by (simp add: base_delay_def)
qed

lemma backoff_delay_half:
  "backoff_delay 0 (1 / 2) = 3 / 2" "backoff_delay 1 (1 / 2) = 5 / 2"
  "backoff_delay 2 (1 / 2) = 9 / 2" "backoff_delay 3 (1 / 2) = 17 / 2"
  by code_simp+

section \<open>Frame lemmas for the pipeline\<close>

lemma observed_append [simp]: "observed (xs @ ys) = observed xs @ observed ys"
  by (simp add: observed_def)

lemma rate_limit_check_frame:
  assumes "rate_limit w \<noteq> 0"
  shows "\<exists>w'. rate_limit_check env w = (Inr (), w') \<and> rate_limit w' = rate_limit w
      \<and> http_calls w' = http_calls w \<and> draws w' = draws w
      \<and> observed (trace w') = observed (trace w)"
proof -
  let ?e = "float_sub (round_double (clock env (reads w))) (last_request_time w)"
  let ?i = "true_div 60 (rate_limit w)"
  have "0 \<le> float_sub ?i ?e" if "?e < ?i"
    unfolding float_sub_def [of ?i ?e] using that by (intro round_double_nonneg) simp
  then have d: "?e < ?i \<Longrightarrow> \<not> float_sub ?i ?e < 0"
    by simp
  show ?thesis
    using assms d
    by (cases "?e < ?i")
       (simp_all add: rate_limit_check_def time_time_def time_sleep_def emit_def observed_def Let_def)
qed

lemma requests_get_frame:
  "\<exists>w'. requests_get env w =
      (case responses env (http_calls w) of
         NetworkFailure m \<Rightarrow> Inl (RequestException (ConnectionError m))
       | Response r \<Rightarrow> Inr r, w')
     \<and> rate_limit w' = rate_limit w \<and> http_calls w' = Suc (http_calls w) \<and> draws w' = draws w
     \<and> observed (trace w') = observed (trace w) @ [HttpGet]"
  by (simp add: requests_get_def emit_def observed_def Let_def split: http_outcome.splits)

lemma transient_retried:
  "transient x \<Longrightarrow> retried x \<and> retry_exception x = raised_by x"
  by (cases x) auto

lemma try_request_retried:
  assumes "rate_limit w \<noteq> 0" "retried (responses env (http_calls w))"
  shows "\<exists>w'. try_request env w = (Inl (RequestException (retry_exception (responses env (http_calls w)))), w')
     \<and> rate_limit w' = rate_limit w \<and> http_calls w' = Suc (http_calls w) \<and> draws w' = draws w
     \<and> observed (trace w') = observed (trace w) @ [HttpGet]"
proof -
  obtain w1 where w1: "rate_limit_check env w = (Inr (), w1)" "rate_limit w1 = rate_limit w"
      "http_calls w1 = http_calls w" "draws w1 = draws w" "observed (trace w1) = observed (trace w)"
    using rate_limit_check_frame [OF assms(1)] by blast
  obtain w2 where w2: "requests_get env w1 =
      (case responses env (http_calls w1) of
         NetworkFailure m \<Rightarrow> Inl (RequestException (ConnectionError m))
       | Response r \<Rightarrow> Inr r, w2)" "rate_limit w2 = rate_limit w1" "http_calls w2 = Suc (http_calls w1)"
      "draws w2 = draws w1" "observed (trace w2) = observed (trace w1) @ [HttpGet]"
    using requests_get_frame by blast
  show ?thesis
    using assms(2) w1 w2
    by (cases "responses env (http_calls w)")
       (auto simp add: try_request_def raise_for_status_def handle_401_def error_message_def
          response_json_def)
qed

lemma try_request_response:
  assumes "rate_limit w \<noteq> 0" "responses env (http_calls w) = Response r"
  shows "\<exists>w'. try_request env w =
        (if status_code r = 401 then handle_401 r w'
         else (case raise_for_status r of Inl e \<Rightarrow> (Inl e, w') | Inr u \<Rightarrow> (Inr (Some r), w')))
     \<and> rate_limit w' = rate_limit w \<and> http_calls w' = Suc (http_calls w) \<and> draws w' = draws w
     \<and> observed (trace w') = observed (trace w) @ [HttpGet]"
proof -
  obtain w1 where w1: "rate_limit_check env w = (Inr (), w1)" "rate_limit w1 = rate_limit w"
      "http_calls w1 = http_calls w" "draws w1 = draws w" "observed (trace w1) = observed (trace w)"
    using rate_limit_check_frame [OF assms(1)] by blast
  obtain w2 where w2: "requests_get env w1 =
      (case responses env (http_calls w1) of
         NetworkFailure m \<Rightarrow> Inl (RequestException (ConnectionError m))
       | Response r \<Rightarrow> Inr r, w2)" "rate_limit w2 = rate_limit w1" "http_calls w2 = Suc (http_calls w1)"
      "draws w2 = draws w1" "observed (trace w2) = observed (trace w1) @ [HttpGet]"
    using requests_get_frame by blast
  show ?thesis
    using assms(2) w1 w2 by (intro exI [of _ w2]) (simp add: try_request_def)
qed

lemma dict_get_error: "dict_get x k d = Inl e \<Longrightarrow> e = AttributeError"
  by (cases x) auto

lemma py_in_error: "py_in s x = Inl e \<Longrightarrow> e = TypeError"
  by (cases x) auto

lemma error_message_body: "error_message r = Inr m \<Longrightarrow> body r \<noteq> None"
  by (auto simp add: error_message_def response_json_def split: option.splits)

lemma error_message_error:
  "body r \<noteq> None \<Longrightarrow> error_message r = Inl e \<Longrightarrow> e = AttributeError"
  by (auto simp add: error_message_def response_json_def dest: dict_get_error split: sum.splits)

lemma handle_401_settles:
  assumes "body r \<noteq> None"
  shows "\<exists>res w'. handle_401 r w = (res, w') \<and> (\<forall>e. res \<noteq> Inl (RequestException e))
     \<and> rate_limit w' = rate_limit w \<and> http_calls w' = http_calls w \<and> draws w' = draws w
     \<and> observed (trace w') = observed (trace w)"
proof (cases "error_message r")
  case (Inl e)
  then have "e = AttributeError"
    using error_message_error [OF assms] by simp
  then show ?thesis
    using Inl by (simp add: handle_401_def)
next
  case (Inr m)
  show ?thesis
  proof (cases "py_in ''Invalid API key'' m")
    case (Inl e)
    then have "e = TypeError"
      by (rule py_in_error)
    then show ?thesis
      using Inl Inr by (simp add: handle_401_def emit_def observed_def)
  next
    case b: (Inr b)
    show ?thesis
      using b Inr by (cases b) (simp_all add: handle_401_def emit_def observed_def)
  qed
qed

lemma handle_401_fst: "fst (handle_401 r w) = fst (handle_401 r w')"
  by (simp add: handle_401_def Let_def split: sum.splits bool.splits)

lemma try_request_settled:
  assumes "rate_limit w \<noteq> 0" "\<not> retried (responses env (http_calls w))"
  shows "\<exists>res w'. try_request env w = (res, w') \<and> (\<forall>e. res \<noteq> Inl (RequestException e))
     \<and> rate_limit w' = rate_limit w \<and> http_calls w' = Suc (http_calls w) \<and> draws w' = draws w
     \<and> observed (trace w') = observed (trace w) @ [HttpGet]"
proof -
  obtain r where r: "responses env (http_calls w) = Response r"
    using assms(2) by (cases "responses env (http_calls w)") auto
  obtain w2 where w2: "try_request env w =
        (if status_code r = 401 then handle_401 r w2
         else (case raise_for_status r of Inl e \<Rightarrow> (Inl e, w2) | Inr u \<Rightarrow> (Inr (Some r), w2)))"
      "rate_limit w2 = rate_limit w" "http_calls w2 = Suc (http_calls w)" "draws w2 = draws w"
      "observed (trace w2) = observed (trace w) @ [HttpGet]"
    using try_request_response [OF assms(1) r] by blast
  show ?thesis
  proof (cases "status_code r = 401")
    case True
    then have "body r \<noteq> None"
      using assms(2) r by simp
    then show ?thesis
      using handle_401_settles [of r w2] w2 True by auto
  next
    case False
    then have "raise_for_status r = Inr ()"
      using assms(2) r by (simp add: raise_for_status_def)
    then show ?thesis
      using w2 False by simp
  qed
qed

lemma retry_loop_return:
  assumes "try_request env w = (res, w1)" "\<forall>e. res \<noteq> Inl (RequestException e)" "attempt < mr"
  shows "retry_loop env mr attempt w = (res, w1)"
  using assms by (subst retry_loop.simps) (auto split: sum.splits error.splits)

lemma retry_loop_step:
  assumes "rate_limit w \<noteq> 0" "retried (responses env (http_calls w))" "Suc attempt < mr"
    "0 \<le> jitters env (draws w)"
  shows "\<exists>w'. retry_loop env mr attempt w = retry_loop env mr (Suc attempt) w'
     \<and> rate_limit w' = rate_limit w \<and> http_calls w' = Suc (http_calls w) \<and> draws w' = Suc (draws w)
     \<and> observed (trace w') = observed (trace w) @ [HttpGet, Sleep Backoff (backoff_delay attempt (jitters env (draws w)))]"
proof -
  obtain w1 where w1: "try_request env w = (Inl (RequestException (retry_exception (responses env (http_calls w)))), w1)"
     "rate_limit w1 = rate_limit w" "http_calls w1 = Suc (http_calls w)" "draws w1 = draws w"
     "observed (trace w1) = observed (trace w) @ [HttpGet]"
    using try_request_retried [OF assms(1,2)] by blast
  have d: "0 \<le> backoff_delay attempt (jitters env (draws w))"
    using assms(4) by (rule backoff_delay_nonneg)
  define delay where "delay = backoff_delay attempt (jitters env (draws w))"
  define w4 where "w4 = emit (Sleep Backoff delay)
      (emit (PrintRetry (attempt + 1) mr delay) (w1\<lparr>draws := draws w1 + 1\<rparr>))"
  have ne: "attempt \<noteq> mr - 1" "\<not> mr \<le> attempt"
    using assms(3) by auto
  have "retry_loop env mr attempt w = retry_loop env mr (Suc attempt) w4"
    using ne w1(1,4) d
    by (subst retry_loop.simps)
       (simp add: random_uniform_def time_sleep_def Let_def w4_def delay_def)
  moreover have "rate_limit w4 = rate_limit w" "http_calls w4 = Suc (http_calls w)"
      "draws w4 = Suc (draws w)"
    using w1 by (simp_all add: w4_def emit_def)
  moreover have "observed (trace w4) = observed (trace w) @ [HttpGet, Sleep Backoff delay]"
    using w1(5) by (simp add: w4_def emit_def) (simp add: observed_def)
  ultimately show ?thesis
    unfolding delay_def by blast
qed

lemma retry_loop_last:
  assumes "rate_limit w \<noteq> 0" "retried (responses env (http_calls w))" "Suc attempt = mr"
  shows "\<exists>w'. retry_loop env mr attempt w = (Inl (RequestException (retry_exception (responses env (http_calls w)))), w')
     \<and> rate_limit w' = rate_limit w \<and> http_calls w' = Suc (http_calls w) \<and> draws w' = draws w
     \<and> observed (trace w') = observed (trace w) @ [HttpGet]"
proof -
  obtain w1 where w1: "try_request env w = (Inl (RequestException (retry_exception (responses env (http_calls w)))), w1)"
     "rate_limit w1 = rate_limit w" "http_calls w1 = Suc (http_calls w)" "draws w1 = draws w"
     "observed (trace w1) = observed (trace w) @ [HttpGet]"
    using try_request_retried [OF assms(1,2)] by blast
  show ?thesis
    using assms(3) w1
    by (subst retry_loop.simps) auto
qed

lemma retry_loop_skip:
  assumes "rate_limit w \<noteq> 0" "jitters_ok env" "attempt + n < mr"
    "\<forall>i<n. retried (responses env (http_calls w + i))"
  shows "\<exists>w'. retry_loop env mr attempt w = retry_loop env mr (attempt + n) w'
     \<and> rate_limit w' = rate_limit w \<and> http_calls w' = http_calls w + n \<and> draws w' = draws w + n
     \<and> observed (trace w') = observed (trace w) @ retries env attempt (draws w) n"
  using assms
proof (induction n arbitrary: attempt w)
  case 0
  show ?case by (intro exI [of _ w]) simp
next
  case (Suc n)
  have t0: "retried (responses env (http_calls w))"
    using Suc.prems(4) by force
  have j0: "0 \<le> jitters env (draws w)"
    using Suc.prems(2) by (simp add: jitters_ok_def)
  obtain w1 where w1: "retry_loop env mr attempt w = retry_loop env mr (Suc attempt) w1"
      "rate_limit w1 = rate_limit w" "http_calls w1 = Suc (http_calls w)" "draws w1 = Suc (draws w)"
      "observed (trace w1) = observed (trace w) @ [HttpGet, Sleep Backoff (backoff_delay attempt (jitters env (draws w)))]"
    using retry_loop_step [OF Suc.prems(1) t0 _ j0, of attempt mr] Suc.prems(3) by auto
  have rest: "\<forall>i<n. retried (responses env (http_calls w1 + i))"
    using Suc.prems(4) w1(3) by auto
  obtain w2 where w2: "retry_loop env mr (Suc attempt) w1 = retry_loop env mr (Suc attempt + n) w2"
      "rate_limit w2 = rate_limit w1" "http_calls w2 = http_calls w1 + n" "draws w2 = draws w1 + n"
      "observed (trace w2) = observed (trace w1) @ retries env (Suc attempt) (draws w1) n"
    using Suc.IH [of w1 "Suc attempt"] Suc.prems(1,2,3) w1(2) rest by auto
  show ?case
    using w1 w2 by (intro exI [of _ w2]) simp
qed

lemma retry_loop_end:
  assumes "rate_limit w \<noteq> 0" "attempt < mr"
    "Suc attempt = mr \<or> \<not> retried (responses env (http_calls w))"
  shows "\<exists>res w'. retry_loop env mr attempt w = (res, w')
     \<and> http_calls w' = Suc (http_calls w) \<and> draws w' = draws w
     \<and> observed (trace w') = observed (trace w) @ [HttpGet]"
proof (cases "retried (responses env (http_calls w))")
  case True
  then have "Suc attempt = mr"
    using assms(3) by simp
  then show ?thesis
    using retry_loop_last [OF assms(1) True] by blast
next
  case False
  obtain res w1 where w1: "try_request env w = (res, w1)" "\<forall>e. res \<noteq> Inl (RequestException e)"
      "http_calls w1 = Suc (http_calls w)" "draws w1 = draws w"
      "observed (trace w1) = observed (trace w) @ [HttpGet]"
    using try_request_settled [OF assms(1) False] by blast
  show ?thesis
    using retry_loop_return [OF w1(1,2) assms(2)] w1(3,4,5) by blast
qed

lemma make_api_request_run:
  assumes "rate_limit w \<noteq> 0" "jitters_ok env" "n < max_retries"
    "\<forall>i<n. retried (responses env (http_calls w + i))"
    "Suc n = max_retries \<or> \<not> retried (responses env (http_calls w + n))"
  shows "\<exists>res w'. make_api_request env w = (res, w')
     \<and> http_calls w' = http_calls w + n + 1 \<and> draws w' = draws w + n
     \<and> observed (trace w') = observed (trace w) @ retries env 0 (draws w) n @ [HttpGet]"
proof -
  obtain w1 where w1: "retry_loop env max_retries 0 w = retry_loop env max_retries (0 + n) w1"
      "rate_limit w1 = rate_limit w" "http_calls w1 = http_calls w + n" "draws w1 = draws w + n"
      "observed (trace w1) = observed (trace w) @ retries env 0 (draws w) n"
    using retry_loop_skip [OF assms(1,2), of 0 n max_retries] assms(3,4) by auto
  have nz: "rate_limit w1 \<noteq> 0"
    using assms(1) w1(2) by simp
  have e: "Suc n = max_retries \<or> \<not> retried (responses env (http_calls w1))"
    using assms(5) w1(3) by simp
  obtain res w2 where w2: "retry_loop env max_retries n w1 = (res, w2)"
      "http_calls w2 = Suc (http_calls w1)" "draws w2 = draws w1"
      "observed (trace w2) = observed (trace w1) @ [HttpGet]"
    using retry_loop_end [OF nz assms(3) e] by blast
  show ?thesis
    using w1 w2 by (intro exI [of _ res] exI [of _ w2]) (simp add: make_api_request_def)
qed

lemma make_api_request_401:
  assumes "rate_limit w \<noteq> 0" "jitters_ok env" "n < max_retries"
    "\<forall>i<n. retried (responses env (http_calls w + i))"
    "responses env (http_calls w + n) = Response r" "status_code r = 401" "body r \<noteq> None"
  shows "\<exists>w'. make_api_request env w = handle_401 r w'
     \<and> http_calls w' = http_calls w + n + 1 \<and> draws w' = draws w + n
     \<and> observed (trace w') = observed (trace w) @ retries env 0 (draws w) n @ [HttpGet]"
proof -
  obtain w1 where w1: "retry_loop env max_retries 0 w = retry_loop env max_retries (0 + n) w1"
      "rate_limit w1 = rate_limit w" "http_calls w1 = http_calls w + n" "draws w1 = draws w + n"
      "observed (trace w1) = observed (trace w) @ retries env 0 (draws w) n"
    using retry_loop_skip [OF assms(1,2), of 0 n max_retries] assms(3,4) by auto
  have nz: "rate_limit w1 \<noteq> 0"
    using assms(1) w1(2) by simp
  have r: "responses env (http_calls w1) = Response r"
    using assms(5) w1(3) by simp
  obtain w2 where w2: "try_request env w1 = handle_401 r w2"
      "http_calls w2 = Suc (http_calls w1)" "draws w2 = draws w1"
      "observed (trace w2) = observed (trace w1) @ [HttpGet]"
    using try_request_response [OF nz r] assms(6) by auto
  obtain res w3 where w3: "handle_401 r w2 = (res, w3)" "\<forall>e. res \<noteq> Inl (RequestException e)"
    using handle_401_settles [OF assms(7)] by blast
  have "retry_loop env max_retries n w1 = handle_401 r w2"
    using retry_loop_return [of env w1 res w3 n max_retries] w2(1) w3 assms(3) by simp
  then show ?thesis
    using w1 w2 by (intro exI [of _ w2]) (simp add: make_api_request_def)
qed

lemma make_api_request_invalid_key:
  assumes "rate_limit w \<noteq> 0" "jitters_ok env" "n < max_retries"
    "\<forall>i<n. retried (responses env (http_calls w + i))"
    "responses env (http_calls w + n) = Response r" "status_code r = 401"
    "error_message r = Inr m" "py_in ''Invalid API key'' m = Inr True"
  shows "\<exists>w'. make_api_request env w = (Inl (ValueError ''Invalid API key - please check your .env file''), w')
     \<and> http_calls w' = http_calls w + n + 1 \<and> draws w' = draws w + n
     \<and> observed (trace w') = observed (trace w) @ retries env 0 (draws w) n @ [HttpGet]"
proof -
  obtain w3 where w3: "make_api_request env w = handle_401 r w3"
      "http_calls w3 = http_calls w + n + 1" "draws w3 = draws w + n"
      "observed (trace w3) = observed (trace w) @ retries env 0 (draws w) n @ [HttpGet]"
    using make_api_request_401 [OF assms(1-6) error_message_body [OF assms(7)]] by blast
  have "handle_401 r w3 = (Inl (ValueError ''Invalid API key - please check your .env file''),
      emit (PrintApiError m) w3)"
    using assms(7,8) by (simp add: handle_401_def)
  then show ?thesis
    using w3 by (simp add: emit_def observed_def)
qed

lemma make_api_request_unauthorized:
  assumes "rate_limit w \<noteq> 0" "jitters_ok env" "n < max_retries"
    "\<forall>i<n. retried (responses env (http_calls w + i))"
    "responses env (http_calls w + n) = Response r" "status_code r = 401"
    "error_message r = Inr m" "py_in ''Invalid API key'' m = Inr False"
  shows "\<exists>w'. make_api_request env w = (Inr None, w')
     \<and> http_calls w' = http_calls w + n + 1 \<and> draws w' = draws w + n
     \<and> observed (trace w') = observed (trace w) @ retries env 0 (draws w) n @ [HttpGet]
     \<and> trace w' \<noteq> [] \<and> last (trace w') = PrintApiError m"
proof -
  obtain w3 where w3: "make_api_request env w = handle_401 r w3"
      "http_calls w3 = http_calls w + n + 1" "draws w3 = draws w + n"
      "observed (trace w3) = observed (trace w) @ retries env 0 (draws w) n @ [HttpGet]"
    using make_api_request_401 [OF assms(1-6) error_message_body [OF assms(7)]] by blast
  have "handle_401 r w3 = (Inr None, emit (PrintApiError m) w3)"
    using assms(7,8) by (simp add: handle_401_def)
  then show ?thesis
    using w3 by (simp add: emit_def observed_def)
qed

lemma make_api_request_success:
  assumes "rate_limit w \<noteq> 0" "jitters_ok env" "n < max_retries"
    "\<forall>i<n. retried (responses env (http_calls w + i))"
    "responses env (http_calls w + n) = Response r" "status_code r \<noteq> 401"
    "\<not> (400 \<le> status_code r \<and> status_code r < 600)"
  shows "\<exists>w'. make_api_request env w = (Inr (Some r), w')
     \<and> http_calls w' = http_calls w + n + 1 \<and> draws w' = draws w + n
     \<and> observed (trace w') = observed (trace w) @ retries env 0 (draws w) n @ [HttpGet]"
proof -
  obtain w1 where w1: "retry_loop env max_retries 0 w = retry_loop env max_retries (0 + n) w1"
      "rate_limit w1 = rate_limit w" "http_calls w1 = http_calls w + n" "draws w1 = draws w + n"
      "observed (trace w1) = observed (trace w) @ retries env 0 (draws w) n"
    using retry_loop_skip [OF assms(1,2), of 0 n max_retries] assms(3,4) by auto
  have nz: "rate_limit w1 \<noteq> 0"
    using assms(1) w1(2) by simp
  have r: "responses env (http_calls w1) = Response r"
    using assms(5) w1(3) by simp
  obtain w2 where w2: "try_request env w1 = (Inr (Some r), w2)"
      "http_calls w2 = Suc (http_calls w1)" "draws w2 = draws w1"
      "observed (trace w2) = observed (trace w1) @ [HttpGet]"
    using try_request_response [OF nz r] assms(6,7) by (auto simp add: raise_for_status_def)
  have "retry_loop env max_retries n w1 = (Inr (Some r), w2)"
    using assms(3) w2(1) by (subst retry_loop.simps) simp
  then show ?thesis
    using w1 w2 by (intro exI [of _ w2]) (simp add: make_api_request_def)
qed

lemma make_api_request_exhausted:
  assumes "rate_limit w \<noteq> 0" "jitters_ok env"
    "\<forall>i<max_retries. retried (responses env (http_calls w + i))"
  shows "\<exists>w'. make_api_request env w
        = (Inl (RequestException (retry_exception (responses env (http_calls w + (max_retries - 1))))), w')
     \<and> http_calls w' = http_calls w + max_retries \<and> draws w' = draws w + (max_retries - 1)
     \<and> observed (trace w') = observed (trace w) @ retries env 0 (draws w) (max_retries - 1) @ [HttpGet]"
proof -
  have m: "0 + (max_retries - 1) < max_retries"
    by (simp add: max_retries_def)
  have pre: "\<forall>i<max_retries - 1. retried (responses env (http_calls w + i))"
    using assms(3) by simp
  obtain w1 where w1: "retry_loop env max_retries 0 w = retry_loop env max_retries (0 + (max_retries - 1)) w1"
      "rate_limit w1 = rate_limit w" "http_calls w1 = http_calls w + (max_retries - 1)"
      "draws w1 = draws w + (max_retries - 1)"
      "observed (trace w1) = observed (trace w) @ retries env 0 (draws w) (max_retries - 1)"
    using retry_loop_skip [OF assms(1,2) m pre] by blast
  have t: "retried (responses env (http_calls w1))"
    using assms(3) w1(3) by (simp add: max_retries_def)
  have s: "Suc (max_retries - 1) = max_retries"
    by (simp add: max_retries_def)
  obtain w2 where w2: "retry_loop env max_retries (max_retries - 1) w1
        = (Inl (RequestException (retry_exception (responses env (http_calls w1)))), w2)"
      "http_calls w2 = Suc (http_calls w1)" "draws w2 = draws w1"
      "observed (trace w2) = observed (trace w1) @ [HttpGet]"
    using retry_loop_last [OF _ t s] assms(1) w1(2) by auto
  show ?thesis
    using w1 w2 s by (intro exI [of _ w2]) (simp add: make_api_request_def)
qed

lemma retries_concat:
  "retries env a d n
     = concat (map (\<lambda>i. [HttpGet, Sleep Backoff (backoff_delay (a + i) (jitters env (d + i)))]) [0..<n])"
proof (induction n arbitrary: a d)
  case 0
  show ?case by simp
next
  case (Suc n)
  have "[0..<Suc n] = 0 # map Suc [0..<n]"
    by (simp add: upt_conv_Cons map_Suc_upt del: upt_Suc)
  then show ?case
    using Suc.IH [of "Suc a" "Suc d"] by (simp add: comp_def del: upt_Suc)
qed

subsection \<open>Facts about the concrete runs\<close>

lemma clock0_ready: "rate_limit clock0 \<noteq> 0"
  by (simp add: clock0_def)

lemma env_of_jitters_ok: "jitters_ok (env_of rs)"
  by (simp add: jitters_ok_def env_of_def)

lemma error_message_unauthorized: "error_message (unauthorized msg) = Inr (JStr msg)"
  by (simp add: unauthorized_def error_message_def response_json_def)

lemma backoff_delay_half_Suc:
  "backoff_delay (Suc 0) (1 / 2) = 5 / 2" "backoff_delay (Suc (Suc 0)) (1 / 2) = 9 / 2"
  "backoff_delay (Suc (Suc (Suc 0))) (1 / 2) = 17 / 2"
  using backoff_delay_half by (simp_all add: eval_nat_numeral)

lemma retries_half:
  "retries (env_of rs) 0 0 4 = [HttpGet, Sleep Backoff (3 / 2), HttpGet, Sleep Backoff (5 / 2),
       HttpGet, Sleep Backoff (9 / 2), HttpGet, Sleep Backoff (17 / 2)]"
  by (simp add: eval_nat_numeral backoff_delay_half backoff_delay_half_Suc env_of_def)

lemma backoff_delay_top: "backoff_delay 0 (9007199254740991 / 9007199254740992) = 2"
  by code_simp

section \<open>The request pipeline: termination of retrying\<close>

text \<open>
  C1, as amended. Whatever the outcomes of the HTTP calls are: when the attempt number
  \<open>n\<close> is made (the \<open>n\<close> attempts before it were all retried, \<open>n\<close> below \<^verbatim>\<open>max_retries\<close>)
  and receives a 401 from whose JSON body the code reads an error message
  (\<^verbatim>\<open>status.error_message\<close>, with the defaults of line 42) that holds the indicator
  \<^verbatim>\<open>Invalid API key\<close> in the sense of Python's \<^verbatim>\<open>in\<close>, \<^verbatim>\<open>_make_api_request\<close> ends on that
  attempt by raising the \<^verbatim>\<open>ValueError\<close> of the invalid credential. It has made \<open>n + 1\<close>
  HTTP calls, the last event of the run is the HTTP call of that attempt, and no backoff
  sleep follows it.
\<close>

theorem auth_failure_stops_the_pipeline:
  assumes "rate_limit w \<noteq> 0" "jitters_ok env" "n < max_retries"
    "\<forall>i<n. retried (responses env (http_calls w + i))"
    "responses env (http_calls w + n) = Response r" "status_code r = 401"
    "error_message r = Inr m" "py_in ''Invalid API key'' m = Inr True"
  shows "\<exists>w'. make_api_request env w = (Inl (ValueError ''Invalid API key - please check your .env file''), w')
     \<and> http_calls w' = http_calls w + n + 1 \<and> draws w' = draws w + n
     \<and> observed (trace w') = observed (trace w) @ retries env 0 (draws w) n @ [HttpGet]"
  using make_api_request_invalid_key [OF assms] .

text \<open>A timeout, then a 401 whose body is no JSON document, then the invalid credential:
  three calls, two sleeps, the error.\<close>

theorem auth_failure_stops_the_pipeline_witness:
  "rate_limit clock0 \<noteq> 0 \<and> (2::nat) < max_retries
   \<and> retried (responses (env_of (\<lambda>k. if k = 0 then NetworkFailure ''timeout''
          else if k = 1 then Response \<lparr>status_code = 401, body = None\<rparr>
          else Response (unauthorized ''Invalid API key. Check it.''))) (http_calls clock0 + 1))
   \<and> (\<exists>w'. make_api_request (env_of (\<lambda>k. if k = 0 then NetworkFailure ''timeout''
          else if k = 1 then Response \<lparr>status_code = 401, body = None\<rparr>
          else Response (unauthorized ''Invalid API key. Check it.''))) clock0
        = (Inl (ValueError ''Invalid API key - please check your .env file''), w')
      \<and> http_calls w' = 3
      \<and> observed (trace w') = [HttpGet, Sleep Backoff (3 / 2), HttpGet, Sleep Backoff (5 / 2), HttpGet])"
proof -
  let ?env = "env_of (\<lambda>k. if k = 0 then NetworkFailure ''timeout''
          else if k = 1 then Response \<lparr>status_code = 401, body = None\<rparr>
          else Response (unauthorized ''Invalid API key. Check it.''))"
  have h3: "(2::nat) < max_retries" by (simp add: max_retries_def)
  have h4: "\<forall>i<2. retried (responses ?env (http_calls clock0 + i))"
    by (simp add: env_of_def clock0_def)
  have h5: "responses ?env (http_calls clock0 + 2) = Response (unauthorized ''Invalid API key. Check it.'')"
    by (simp add: env_of_def clock0_def)
  have h6: "status_code (unauthorized ''Invalid API key. Check it.'') = 401"
    by (simp add: unauthorized_def)
  have h8: "py_in ''Invalid API key'' (JStr ''Invalid API key. Check it.'') = Inr True"
    by simp
  have r: "retries ?env 0 (draws clock0) 2 = [HttpGet, Sleep Backoff (3 / 2), HttpGet, Sleep Backoff (5 / 2)]"
    by (simp add: numeral_2_eq_2 backoff_delay_half backoff_delay_half_Suc env_of_def)
  obtain w' where w': "make_api_request ?env clock0
        = (Inl (ValueError ''Invalid API key - please check your .env file''), w')"
      "http_calls w' = http_calls clock0 + 2 + 1"
      "observed (trace w') = observed (trace clock0) @ retries ?env 0 (draws clock0) 2 @ [HttpGet]"
    using auth_failure_stops_the_pipeline [OF clock0_ready env_of_jitters_ok h3 h4 h5 h6
        error_message_unauthorized h8] by blast
  have c: "http_calls w' = 3"
    using w'(2) by (simp add: clock0_def)
  have o: "observed (trace w') = [HttpGet, Sleep Backoff (3 / 2), HttpGet, Sleep Backoff (5 / 2), HttpGet]"
    using w'(3) r by (simp add: clock0_def observed_def)
  have t: "retried (responses ?env (http_calls clock0 + 1))"
    by (simp add: env_of_def clock0_def)
  show ?thesis
    using clock0_ready h3 t w'(1) c o by blast
qed

text \<open>
  C1 as stated lets the indicator be anywhere in the body of the 401. The code looks for
  it in \<^verbatim>\<open>status.error_message\<close> only, with \<^verbatim>\<open>in\<close>. With the indicator in another field
  of the body the pipeline returns \<^verbatim>\<open>None\<close> and raises no auth error. With the indicator
  inside an item of a list of messages, \<^verbatim>\<open>in\<close> is false and the pipeline returns
  \<^verbatim>\<open>None\<close> as well. And a 401 whose body is no JSON document, whatever its text,
  is retried: five HTTP calls, then the decoding error of the last one.
\<close>

theorem indicator_outside_the_message:
  "fst (make_api_request (env_of (\<lambda>k. Response (unauthorized_body
          (JObj [(''message'', JStr ''Invalid API key'')])))) clock0) = Inr None
   \<and> fst (make_api_request (env_of (\<lambda>k. Response (unauthorized_body
          (JObj [(''status'', JObj [(''error_message'', JArr [JStr ''Invalid API key: expired''])])])))) clock0)
       = Inr None
   \<and> fst (make_api_request (env_of (\<lambda>k. Response \<lparr>status_code = 401, body = None\<rparr>)) clock0)
       = Inl (RequestException JSONDecodeError)
   \<and> http_calls (snd (make_api_request (env_of (\<lambda>k. Response \<lparr>status_code = 401, body = None\<rparr>)) clock0)) = 5"
proof -
  have h3: "(0::nat) < max_retries" by (simp add: max_retries_def)
  have none: "fst (make_api_request (env_of (\<lambda>k. Response (unauthorized_body j))) clock0) = Inr None"
    if m: "error_message (unauthorized_body j) = Inr m" "py_in ''Invalid API key'' m = Inr False" for j m
  proof -
    let ?env = "env_of (\<lambda>k. Response (unauthorized_body j))"
    have h4: "\<forall>i<0. retried (responses ?env (http_calls clock0 + i))" by simp
    have h5: "responses ?env (http_calls clock0 + 0) = Response (unauthorized_body j)"
      by (simp add: env_of_def)
    have h6: "status_code (unauthorized_body j) = 401"
      by (simp add: unauthorized_body_def)
    show ?thesis
      using make_api_request_unauthorized [OF clock0_ready env_of_jitters_ok h3 h4 h5 h6 m] by auto
  qed
  have a: "fst (make_api_request (env_of (\<lambda>k. Response (unauthorized_body
          (JObj [(''message'', JStr ''Invalid API key'')])))) clock0) = Inr None"
    by (rule none [of _ "JStr ''Unauthorized''"])
       (simp_all add: error_message_def response_json_def unauthorized_body_def)
  have b: "fst (make_api_request (env_of (\<lambda>k. Response (unauthorized_body
          (JObj [(''status'', JObj [(''error_message'', JArr [JStr ''Invalid API key: expired''])])])))) clock0)
       = Inr None"
    by (rule none [of _ "JArr [JStr ''Invalid API key: expired'']"])
       (simp_all add: error_message_def response_json_def unauthorized_body_def)
  let ?raw = "env_of (\<lambda>k. Response \<lparr>status_code = 401, body = None\<rparr>)"
  have t: "\<forall>i<max_retries. retried (responses ?raw (http_calls clock0 + i))"
    by (simp add: env_of_def)
  obtain w' where "make_api_request ?raw clock0
        = (Inl (RequestException (retry_exception (responses ?raw (http_calls clock0 + (max_retries - 1))))), w')"
      "http_calls w' = http_calls clock0 + max_retries"
    using make_api_request_exhausted [OF clock0_ready env_of_jitters_ok t] by blast
  then have c: "fst (make_api_request ?raw clock0) = Inl (RequestException JSONDecodeError)"
      "http_calls (snd (make_api_request ?raw clock0)) = 5"
    by (simp_all add: env_of_def clock0_def max_retries_def)
  show ?thesis
    using a b c by simp
qed

text \<open>
  C2, as amended. When the first \<^verbatim>\<open>max_retries\<close> outcomes are all retried failures
  (\<^verbatim>\<open>requests.get\<close> raised, or a status from 400 to 599 other than 401),
  \<^verbatim>\<open>_make_api_request\<close> makes exactly \<^verbatim>\<open>max_retries\<close> HTTP calls and then raises the
  exception of the last attempt to its caller. A backoff sleep follows each call but the
  last; the run ends with the last HTTP call.
\<close>

theorem exhausted_after_max_retries:
  assumes "rate_limit w \<noteq> 0" "jitters_ok env"
    "\<forall>i<max_retries. transient (responses env (http_calls w + i))"
  shows "\<exists>w'. make_api_request env w
        = (Inl (RequestException (raised_by (responses env (http_calls w + (max_retries - 1))))), w')
     \<and> http_calls w' = http_calls w + max_retries
     \<and> observed (trace w') = observed (trace w) @ retries env 0 (draws w) (max_retries - 1) @ [HttpGet]"
proof -
  have r: "\<forall>i<max_retries. retried (responses env (http_calls w + i))"
    using assms(3) transient_retried by blast
  have "max_retries - 1 < max_retries"
    by (simp add: max_retries_def)
  then have "transient (responses env (http_calls w + (max_retries - 1)))"
    using assms(3) by blast
  then have e: "retry_exception (responses env (http_calls w + (max_retries - 1)))
      = raised_by (responses env (http_calls w + (max_retries - 1)))"
    using transient_retried by blast
  show ?thesis
    using make_api_request_exhausted [OF assms(1,2) r] e by auto
qed

text \<open>Five times 503: five calls with four sleeps between them.\<close>

theorem exhausted_after_max_retries_witness:
  "rate_limit clock0 \<noteq> 0
   \<and> transient (responses (env_of (\<lambda>k. Response \<lparr>status_code = 503, body = None\<rparr>)) (http_calls clock0 + 4))
   \<and> (\<exists>w'. make_api_request (env_of (\<lambda>k. Response \<lparr>status_code = 503, body = None\<rparr>)) clock0
        = (Inl (RequestException (HTTPError 503)), w')
      \<and> http_calls w' = 5
      \<and> observed (trace w') = [HttpGet, Sleep Backoff (3 / 2), HttpGet, Sleep Backoff (5 / 2),
           HttpGet, Sleep Backoff (9 / 2), HttpGet, Sleep Backoff (17 / 2), HttpGet])"
proof -
  let ?env = "env_of (\<lambda>k. Response \<lparr>status_code = 503, body = None\<rparr>)"
  have h3: "\<forall>i<max_retries. transient (responses ?env (http_calls clock0 + i))"
    by (simp add: env_of_def)
  have r: "retries ?env 0 (draws clock0) (max_retries - 1)
      = [HttpGet, Sleep Backoff (3 / 2), HttpGet, Sleep Backoff (5 / 2),
           HttpGet, Sleep Backoff (9 / 2), HttpGet, Sleep Backoff (17 / 2)]"
    using retries_half [of "\<lambda>k. Response \<lparr>status_code = 503, body = None\<rparr>"]
    by (simp add: max_retries_def clock0_def)
  obtain w' where w': "make_api_request ?env clock0
        = (Inl (RequestException (raised_by (responses ?env (http_calls clock0 + (max_retries - 1))))), w')"
      "http_calls w' = http_calls clock0 + max_retries"
      "observed (trace w') = observed (trace clock0) @ retries ?env 0 (draws clock0) (max_retries - 1) @ [HttpGet]"
    using exhausted_after_max_retries [OF clock0_ready env_of_jitters_ok h3] by blast
  have e: "make_api_request ?env clock0 = (Inl (RequestException (HTTPError 503)), w')"
    using w'(1) by (simp add: env_of_def)
  have c: "http_calls w' = 5"
    using w'(2) by (simp add: clock0_def max_retries_def)
  have o: "observed (trace w') = [HttpGet, Sleep Backoff (3 / 2), HttpGet, Sleep Backoff (5 / 2),
           HttpGet, Sleep Backoff (9 / 2), HttpGet, Sleep Backoff (17 / 2), HttpGet]"
    using w'(3) r by (simp add: clock0_def observed_def)
  have t: "transient (responses ?env (http_calls clock0 + 4))"
    by (simp add: env_of_def)
  show ?thesis
    using clock0_ready t e c o by blast
qed

text \<open>
  C2 as stated counts every status outside 2xx, 401 apart, as a failure to retry. A 304
  is outside 2xx, but \<^verbatim>\<open>raise_for_status\<close> accepts it: the response is returned after
  a single HTTP call.
\<close>

theorem not_modified_is_returned:
  "fst (make_api_request (env_of (\<lambda>k. Response \<lparr>status_code = 304, body = None\<rparr>)) clock0)
     = Inr (Some \<lparr>status_code = 304, body = None\<rparr>)
   \<and> http_calls (snd (make_api_request (env_of (\<lambda>k. Response \<lparr>status_code = 304, body = None\<rparr>)) clock0)) = 1"
proof -
  let ?env = "env_of (\<lambda>k. Response \<lparr>status_code = 304, body = None\<rparr>)"
  have h3: "(0::nat) < max_retries" by (simp add: max_retries_def)
  have h4: "\<forall>i<0. retried (responses ?env (http_calls clock0 + i))" by simp
  have h5: "responses ?env (http_calls clock0 + 0) = Response \<lparr>status_code = 304, body = None\<rparr>"
    by (simp add: env_of_def)
  obtain w' where "make_api_request ?env clock0 = (Inr (Some \<lparr>status_code = 304, body = None\<rparr>), w')"
      "http_calls w' = http_calls clock0 + 0 + 1"
    using make_api_request_success [OF clock0_ready env_of_jitters_ok h3 h4 h5] by auto
  then show ?thesis
    by (simp add: clock0_def)
qed

section \<open>A 401 without the indicator\<close>

text \<open>
  C5, as amended. When an attempt (the \<open>n\<close> attempts before it were all retried) receives
  a 401 from whose JSON body the code reads an error message (\<^verbatim>\<open>status.error_message\<close>,
  with the defaults of line 42) that is a string, a list or an object and does not hold
  the indicator \<^verbatim>\<open>Invalid API key\<close> in the sense of Python's \<^verbatim>\<open>in\<close>,
  \<^verbatim>\<open>_make_api_request\<close> returns at once, with no retry and no backoff sleep after that
  attempt, and raises nothing. What it returns is \<^verbatim>\<open>None\<close>; the message of the server
  is the last line printed, it is not part of the result.
\<close>

theorem unauthorized_returns_none:
  assumes "rate_limit w \<noteq> 0" "jitters_ok env" "n < max_retries"
    "\<forall>i<n. retried (responses env (http_calls w + i))"
    "responses env (http_calls w + n) = Response r" "status_code r = 401"
    "error_message r = Inr m" "py_in ''Invalid API key'' m = Inr False"
  shows "\<exists>w'. make_api_request env w = (Inr None, w')
     \<and> http_calls w' = http_calls w + n + 1 \<and> draws w' = draws w + n
     \<and> observed (trace w') = observed (trace w) @ retries env 0 (draws w) n @ [HttpGet]
     \<and> trace w' \<noteq> [] \<and> last (trace w') = PrintApiError m"
  using make_api_request_unauthorized [OF assms] .

text \<open>A disabled key on the first attempt: one call, the message printed, \<^verbatim>\<open>None\<close>.\<close>

theorem unauthorized_returns_none_witness:
  "rate_limit clock0 \<noteq> 0 \<and> (0::nat) < max_retries
   \<and> status_code (unauthorized ''API key disabled'') = 401
   \<and> error_message (unauthorized ''API key disabled'') = Inr (JStr ''API key disabled'')
   \<and> py_in ''Invalid API key'' (JStr ''API key disabled'') = Inr False
   \<and> (\<exists>w'. make_api_request (env_of (\<lambda>k. Response (unauthorized ''API key disabled''))) clock0
          = (Inr None, w')
        \<and> http_calls w' = 1 \<and> observed (trace w') = [HttpGet]
        \<and> last (trace w') = PrintApiError (JStr ''API key disabled''))"
proof -
  let ?env = "env_of (\<lambda>k. Response (unauthorized ''API key disabled''))"
  have h3: "(0::nat) < max_retries" by (simp add: max_retries_def)
  have h4: "\<forall>i<0. retried (responses ?env (http_calls clock0 + i))" by simp
  have h5: "responses ?env (http_calls clock0 + 0) = Response (unauthorized ''API key disabled'')"
    by (simp add: env_of_def)
  have h6: "status_code (unauthorized ''API key disabled'') = 401"
    by (simp add: unauthorized_def)
  have h8: "py_in ''Invalid API key'' (JStr ''API key disabled'') = Inr False"
    by simp
  obtain w' where w': "make_api_request ?env clock0 = (Inr None, w')"
      "http_calls w' = http_calls clock0 + 0 + 1"
      "observed (trace w') = observed (trace clock0) @ retries ?env 0 (draws clock0) 0 @ [HttpGet]"
      "last (trace w') = PrintApiError (JStr ''API key disabled'')"
    using unauthorized_returns_none [OF clock0_ready env_of_jitters_ok h3 h4 h5 h6
        error_message_unauthorized h8] by blast
  have c: "http_calls w' = 1"
    using w'(2) by (simp add: clock0_def)
  have o: "observed (trace w') = [HttpGet]"
    using w'(3) by (simp add: clock0_def observed_def)
  show ?thesis
    using clock0_ready h3 h6 h8 error_message_unauthorized [of "''API key disabled''"] w'(1,4) c o
    by blast
qed

text \<open>
  C5 as stated has every 401 without the indicator return at once, with a result that
  carries the message of the server. Two different messages give the same result,
  \<^verbatim>\<open>None\<close>. A 401 whose body is no JSON document is retried: five HTTP calls, and the
  decoding error of the last one is raised. A message that is \<^verbatim>\<open>null\<close> makes the test
  of line 44 raise \<^verbatim>\<open>TypeError\<close>, and a body that is a JSON list makes line 42 raise
  \<^verbatim>\<open>AttributeError\<close>.
\<close>

theorem unauthorized_result_carries_no_message:
  "fst (make_api_request (env_of (\<lambda>k. Response (unauthorized ''Plan expired''))) clock0) = Inr None
   \<and> fst (make_api_request (env_of (\<lambda>k. Response (unauthorized ''Key disabled''))) clock0) = Inr None
   \<and> fst (make_api_request (env_of (\<lambda>k. Response \<lparr>status_code = 401, body = None\<rparr>)) clock0)
       = Inl (RequestException JSONDecodeError)
   \<and> http_calls (snd (make_api_request (env_of (\<lambda>k. Response \<lparr>status_code = 401, body = None\<rparr>)) clock0)) = 5
   \<and> fst (make_api_request (env_of (\<lambda>k. Response (unauthorized_body
          (JObj [(''status'', JObj [(''error_message'', JNull)])])))) clock0) = Inl TypeError
   \<and> fst (make_api_request (env_of (\<lambda>k. Response (unauthorized_body (JArr [])))) clock0)
       = Inl AttributeError"
proof -
  have h3: "(0::nat) < max_retries" by (simp add: max_retries_def)
  have a: "fst (make_api_request (env_of (\<lambda>k. Response (unauthorized msg))) clock0) = Inr None"
    if "py_in ''Invalid API key'' (JStr msg) = Inr False" for msg
  proof -
    let ?env = "env_of (\<lambda>k. Response (unauthorized msg))"
    have h4: "\<forall>i<0. retried (responses ?env (http_calls clock0 + i))" by simp
    have h5: "responses ?env (http_calls clock0 + 0) = Response (unauthorized msg)"
      by (simp add: env_of_def)
    have h6: "status_code (unauthorized msg) = 401"
      by (simp add: unauthorized_def)
    show ?thesis
      using make_api_request_unauthorized [OF clock0_ready env_of_jitters_ok h3 h4 h5 h6
          error_message_unauthorized that] by auto
  qed
  have "py_in ''Invalid API key'' (JStr ''Plan expired'') = Inr False"
       "py_in ''Invalid API key'' (JStr ''Key disabled'') = Inr False"
    by simp_all
  then have ab: "fst (make_api_request (env_of (\<lambda>k. Response (unauthorized ''Plan expired''))) clock0) = Inr None"
      "fst (make_api_request (env_of (\<lambda>k. Response (unauthorized ''Key disabled''))) clock0) = Inr None"
    using a by blast+
  let ?raw = "env_of (\<lambda>k. Response \<lparr>status_code = 401, body = None\<rparr>)"
  have t: "\<forall>i<max_retries. retried (responses ?raw (http_calls clock0 + i))"
    by (simp add: env_of_def)
  obtain w' where "make_api_request ?raw clock0
        = (Inl (RequestException (retry_exception (responses ?raw (http_calls clock0 + (max_retries - 1))))), w')"
      "http_calls w' = http_calls clock0 + max_retries"
    using make_api_request_exhausted [OF clock0_ready env_of_jitters_ok t] by blast
  then have c: "fst (make_api_request ?raw clock0) = Inl (RequestException JSONDecodeError)"
      "http_calls (snd (make_api_request ?raw clock0)) = 5"
    by (simp_all add: env_of_def clock0_def max_retries_def)
  have raised: "fst (make_api_request (env_of (\<lambda>k. Response (unauthorized_body j))) clock0)
      = fst (handle_401 (unauthorized_body j) clock0)" for j
  proof -
    let ?env = "env_of (\<lambda>k. Response (unauthorized_body j))"
    have h4: "\<forall>i<0. retried (responses ?env (http_calls clock0 + i))" by simp
    have h5: "responses ?env (http_calls clock0 + 0) = Response (unauthorized_body j)"
      by (simp add: env_of_def)
    have h6: "status_code (unauthorized_body j) = 401" "body (unauthorized_body j) \<noteq> None"
      by (simp_all add: unauthorized_body_def)
    obtain w3 where "make_api_request ?env clock0 = handle_401 (unauthorized_body j) w3"
      using make_api_request_401 [OF clock0_ready env_of_jitters_ok h3 h4 h5 h6] by blast
    then show ?thesis
      using handle_401_fst [of "unauthorized_body j" w3 clock0] by simp
  qed
  have d: "fst (make_api_request (env_of (\<lambda>k. Response (unauthorized_body
          (JObj [(''status'', JObj [(''error_message'', JNull)])])))) clock0) = Inl TypeError"
    unfolding raised
    by (simp add: handle_401_def error_message_def response_json_def unauthorized_body_def)
  have e: "fst (make_api_request (env_of (\<lambda>k. Response (unauthorized_body (JArr [])))) clock0)
       = Inl AttributeError"
    unfolding raised
    by (simp add: handle_401_def error_message_def response_json_def unauthorized_body_def)
  show ?thesis
    using ab c d e by simp
qed

section \<open>Backoff delays\<close>

text \<open>
  C7, as amended. In a run whose first \<open>n\<close> attempts are retried (\<open>n\<close> below
  \<^verbatim>\<open>max_retries\<close>) and whose next attempt ends the run (it is not retried, or it is the
  last of the \<^verbatim>\<open>max_retries\<close>), a delay is slept after each of the attempts 0 to \<open>n - 1\<close>
  and after no other. The delay after attempt \<open>a\<close> is the float sum of
  \<^verbatim>\<open>base_delay * 2 ** a\<close> and the jitter of that attempt, which is a draw of its own (the
  \<open>a\<close>-th one after those already made). With a jitter in [0, 1) it differs from the exact
  sum by at most \<open>2^(a-53)\<close> and lies in the closed interval from \<^verbatim>\<open>base_delay * 2 ** a\<close>
  to \<^verbatim>\<open>base_delay * 2 ** a + 1\<close>.
\<close>

theorem backoff_delay_in_closed_interval:
  assumes "rate_limit w \<noteq> 0" "jitters_ok env" "n < max_retries"
    "\<forall>i<n. retried (responses env (http_calls w + i))"
    "Suc n = max_retries \<or> \<not> retried (responses env (http_calls w + n))"
  shows "\<exists>res w'. make_api_request env w = (res, w')
      \<and> draws w' = draws w + n
      \<and> observed (trace w') = observed (trace w)
           @ concat (map (\<lambda>a. [HttpGet, Sleep Backoff (backoff_delay a (jitters env (draws w + a)))]) [0..<n])
           @ [HttpGet]
      \<and> (\<forall>a<n. of_nat (base_delay * 2 ^ a) \<le> backoff_delay a (jitters env (draws w + a))
            \<and> backoff_delay a (jitters env (draws w + a)) \<le> of_nat (base_delay * 2 ^ a) + 1
            \<and> \<bar>backoff_delay a (jitters env (draws w + a))
                 - (of_nat (base_delay * 2 ^ a) + jitters env (draws w + a))\<bar> \<le> 2 ^ a / 2 ^ 53)"
proof -
  obtain res w' where w': "make_api_request env w = (res, w')" "draws w' = draws w + n"
      "observed (trace w') = observed (trace w) @ retries env 0 (draws w) n @ [HttpGet]"
    using make_api_request_run [OF assms] by blast
  have j: "\<And>k. 0 \<le> jitters env k \<and> jitters env k < 1"
    using assms(2) by (simp add: jitters_ok_def)
  have b: "\<forall>a<n. of_nat (base_delay * 2 ^ a) \<le> backoff_delay a (jitters env (draws w + a))
            \<and> backoff_delay a (jitters env (draws w + a)) \<le> of_nat (base_delay * 2 ^ a) + 1
            \<and> \<bar>backoff_delay a (jitters env (draws w + a))
                 - (of_nat (base_delay * 2 ^ a) + jitters env (draws w + a))\<bar> \<le> 2 ^ a / 2 ^ 53"
  proof (intro allI impI)
    fix a assume "a < n"
    then have "a \<le> 52"
      using assms(3) by (simp add: max_retries_def)
    then show "of_nat (base_delay * 2 ^ a) \<le> backoff_delay a (jitters env (draws w + a))
            \<and> backoff_delay a (jitters env (draws w + a)) \<le> of_nat (base_delay * 2 ^ a) + 1
            \<and> \<bar>backoff_delay a (jitters env (draws w + a))
                 - (of_nat (base_delay * 2 ^ a) + jitters env (draws w + a))\<bar> \<le> 2 ^ a / 2 ^ 53"
      using backoff_delay_bounds [of "jitters env (draws w + a)" a] j by blast
  qed
  have o: "observed (trace w') = observed (trace w)
           @ concat (map (\<lambda>a. [HttpGet, Sleep Backoff (backoff_delay a (jitters env (draws w + a)))]) [0..<n])
           @ [HttpGet]"
    using w'(3) by (simp add: retries_concat)
  show ?thesis
    using w'(1,2) o b by blast
qed

text \<open>Three timeouts with jitter 1/2, then a response: the delays 3/2, 5/2 and 9/2.\<close>

theorem backoff_delay_in_closed_interval_witness:
  "rate_limit clock0 \<noteq> 0 \<and> (3::nat) < max_retries
   \<and> jitters_ok (env_of (\<lambda>k. if k < 3 then NetworkFailure ''timeout'' else Response (success_body JNull)))
   \<and> retried (responses (env_of (\<lambda>k. if k < 3 then NetworkFailure ''timeout''
          else Response (success_body JNull))) (http_calls clock0 + 2))
   \<and> \<not> retried (responses (env_of (\<lambda>k. if k < 3 then NetworkFailure ''timeout''
          else Response (success_body JNull))) (http_calls clock0 + 3))
   \<and> (\<exists>res w'. make_api_request (env_of (\<lambda>k. if k < 3 then NetworkFailure ''timeout''
          else Response (success_body JNull))) clock0 = (res, w')
        \<and> draws w' = 3
        \<and> observed (trace w') = [HttpGet, Sleep Backoff (3 / 2), HttpGet, Sleep Backoff (5 / 2),
             HttpGet, Sleep Backoff (9 / 2), HttpGet])
   \<and> 4 \<le> backoff_delay 2 (1 / 2) \<and> backoff_delay 2 (1 / 2) \<le> 5"
proof -
  let ?env = "env_of (\<lambda>k. if k < 3 then NetworkFailure ''timeout'' else Response (success_body JNull))"
  have h3: "(3::nat) < max_retries" by (simp add: max_retries_def)
  have h4: "\<forall>i<3. retried (responses ?env (http_calls clock0 + i))"
    by (simp add: env_of_def clock0_def)
  have h5: "\<not> retried (responses ?env (http_calls clock0 + 3))"
    by (simp add: env_of_def clock0_def success_body_def)
  then have h5': "Suc 3 = max_retries \<or> \<not> retried (responses ?env (http_calls clock0 + 3))"
    by simp
  obtain res w' where w': "make_api_request ?env clock0 = (res, w')"
      "draws w' = draws clock0 + 3"
      "observed (trace w') = observed (trace clock0)
           @ concat (map (\<lambda>a. [HttpGet, Sleep Backoff (backoff_delay a (jitters ?env (draws clock0 + a)))]) [0..<3])
           @ [HttpGet]"
      "\<forall>a<3. of_nat (base_delay * 2 ^ a) \<le> backoff_delay a (jitters ?env (draws clock0 + a))
            \<and> backoff_delay a (jitters ?env (draws clock0 + a)) \<le> of_nat (base_delay * 2 ^ a) + 1
            \<and> \<bar>backoff_delay a (jitters ?env (draws clock0 + a))
                 - (of_nat (base_delay * 2 ^ a) + jitters ?env (draws clock0 + a))\<bar> \<le> 2 ^ a / 2 ^ 53"
    using backoff_delay_in_closed_interval [OF clock0_ready env_of_jitters_ok h3 h4 h5'] by blast
  have u: "[0..<3] = [0, 1, 2]"
    by (simp add: upt_conv_Cons)
  have d: "draws w' = 3"
    using w'(2) by (simp add: clock0_def)
  have o: "observed (trace w') = [HttpGet, Sleep Backoff (3 / 2), HttpGet, Sleep Backoff (5 / 2),
             HttpGet, Sleep Backoff (9 / 2), HttpGet]"
    using w'(3)
    by (simp add: u clock0_def observed_def backoff_delay_half backoff_delay_half_Suc env_of_def)
  have "(2::nat) < 3"
    by simp
  then have "of_nat (base_delay * 2 ^ 2) \<le> backoff_delay 2 (jitters ?env (draws clock0 + 2))
      \<and> backoff_delay 2 (jitters ?env (draws clock0 + 2)) \<le> of_nat (base_delay * 2 ^ 2) + 1"
    using w'(4) by blast
  then have b: "4 \<le> backoff_delay 2 (1 / 2) \<and> backoff_delay 2 (1 / 2) \<le> 5"
    by (simp add: env_of_def base_delay_def)
  have t: "retried (responses ?env (http_calls clock0 + 2))"
    by (simp add: env_of_def clock0_def)
  show ?thesis
    using clock0_ready h3 env_of_jitters_ok t h5 w'(1) d o b by blast
qed

text \<open>
  C7 as stated has the delay equal to the exact sum and below
  \<^verbatim>\<open>base_delay * 2 ** a + 1\<close>. The largest value of \<^verbatim>\<open>random.uniform(0, 1)\<close> is
  \<open>1 - 2^(-53)\<close>, which is 9007199254740991 / 9007199254740992. The float sum of 1 and
  that jitter is 2: the delay after the first attempt is the excluded upper bound, and it is
  not the exact sum. After the fifth failed attempt no delay is computed: four draws in
  five attempts.
\<close>

theorem backoff_delay_reaches_the_upper_bound:
  "(0::rat) \<le> 9007199254740991 / 9007199254740992
   \<and> (9007199254740991 / 9007199254740992 :: rat) < 1
   \<and> backoff_delay 0 (9007199254740991 / 9007199254740992) = of_nat (base_delay * 2 ^ 0) + 1
   \<and> observed (trace (snd (make_api_request (env_with_jitter (9007199254740991 / 9007199254740992)
          (\<lambda>k. if k = 0 then NetworkFailure ''timeout'' else Response (success_body JNull))) clock0)))
       = [HttpGet, Sleep Backoff 2, HttpGet]
   \<and> http_calls (snd (make_api_request (env_of (\<lambda>k. NetworkFailure ''timeout'')) clock0)) = 5
   \<and> draws (snd (make_api_request (env_of (\<lambda>k. NetworkFailure ''timeout'')) clock0)) = 4"
proof -
  let ?env = "env_with_jitter (9007199254740991 / 9007199254740992)
          (\<lambda>k. if k = 0 then NetworkFailure ''timeout'' else Response (success_body JNull))"
  have b: "backoff_delay 0 (9007199254740991 / 9007199254740992) = of_nat (base_delay * 2 ^ 0) + 1"
    by (simp add: backoff_delay_top base_delay_def)
  have j: "jitters_ok ?env"
    by (simp add: jitters_ok_def env_with_jitter_def)
  have h3: "(1::nat) < max_retries" by (simp add: max_retries_def)
  have h4: "\<forall>i<1. retried (responses ?env (http_calls clock0 + i))"
    by (simp add: env_with_jitter_def clock0_def)
  have h5: "responses ?env (http_calls clock0 + 1) = Response (success_body JNull)"
    by (simp add: env_with_jitter_def clock0_def)
  have h6: "status_code (success_body JNull) \<noteq> 401"
      "\<not> (400 \<le> status_code (success_body JNull) \<and> status_code (success_body JNull) < 600)"
    by (simp_all add: success_body_def)
  obtain w' where w': "make_api_request ?env clock0 = (Inr (Some (success_body JNull)), w')"
      "observed (trace w') = observed (trace clock0) @ retries ?env 0 (draws clock0) 1 @ [HttpGet]"
    using make_api_request_success [OF clock0_ready j h3 h4 h5 h6] by blast
  have "retries ?env 0 (draws clock0) 1 = [HttpGet, Sleep Backoff 2]"
    by (simp add: backoff_delay_top env_with_jitter_def)
  then have o: "observed (trace (snd (make_api_request ?env clock0))) = [HttpGet, Sleep Backoff 2, HttpGet]"
    using w' by (simp add: clock0_def observed_def)
  let ?down = "env_of (\<lambda>k. NetworkFailure ''timeout'')"
  have t: "\<forall>i<max_retries. retried (responses ?down (http_calls clock0 + i))"
    by (simp add: env_of_def)
  obtain w2 where "make_api_request ?down clock0
        = (Inl (RequestException (retry_exception (responses ?down (http_calls clock0 + (max_retries - 1))))), w2)"
      "http_calls w2 = http_calls clock0 + max_retries" "draws w2 = draws clock0 + (max_retries - 1)"
    using make_api_request_exhausted [OF clock0_ready env_of_jitters_ok t] by blast
  then have c: "http_calls (snd (make_api_request ?down clock0)) = 5"
      "draws (snd (make_api_request ?down clock0)) = 4"
    by (simp_all add: clock0_def max_retries_def)
  show ?thesis
    using b o c by simp
qed

section \<open>Mapping of token records\<close>

lemma subscript_Inr: "subscript x k = Inr v \<longleftrightarrow> lookup x k = Some v"
  by (cases x) (auto simp add: lookup_def split: option.splits)

lemma subscript_error: "subscript x k = Inl e \<Longrightarrow> e = TypeError \<or> e = KeyError k"
  by (cases x) (auto split: option.splits)

lemma subscript_shaped: "is_obj x \<Longrightarrow> subscript x k = Inl e \<Longrightarrow> e = KeyError k"
  by (cases x) (auto split: option.splits)

lemma subscript_missing: "is_obj x \<Longrightarrow> lookup x k = None \<Longrightarrow> subscript x k = Inl (KeyError k)"
  by (cases x) (auto simp add: lookup_def)

lemma lookup_is_obj: "lookup x k = Some v \<Longrightarrow> is_obj x"
  by (cases x) (auto simp add: lookup_def)

lemma subscript_lookup:
  "subscript x k =
     (case lookup x k of
        None \<Rightarrow> if is_obj x then Inl (KeyError k) else Inl TypeError
      | Some v \<Rightarrow> Inr v)"
  by (cases x) (auto simp add: lookup_def split: option.splits)

lemma usd_field_Inr: "usd_field t k = Inr v \<longleftrightarrow> usd_lookup t k = Some v"
  by (auto simp add: usd_field_def usd_lookup_def and_then_def subscript_lookup
      split: option.splits if_splits)

lemma usd_field_error: "usd_field t k = Inl e \<Longrightarrow> e = TypeError \<or> (\<exists>k'. e = KeyError k')"
  by (auto simp add: usd_field_def and_then_def split: sum.splits dest: subscript_error)

lemma usd_field_shaped:
  assumes "record_shaped t" "usd_field t k = Inl e"
  shows "e = KeyError ''quote'' \<or> e = KeyError ''USD'' \<or> e = KeyError k"
proof (cases "subscript t ''quote''")
  case (Inl e')
  then show ?thesis
    using assms subscript_shaped [of t "''quote''" e']
    by (simp add: usd_field_def and_then_def record_shaped_def)
next
  case q: (Inr q)
  then have lq: "lookup t ''quote'' = Some q"
    by (simp add: subscript_Inr)
  then have oq: "is_obj q"
    using assms(1) by (simp add: record_shaped_def)
  show ?thesis
  proof (cases "subscript q ''USD''")
    case (Inl e')
    then show ?thesis
      using assms(2) q subscript_shaped [OF oq, of "''USD''" e']
      by (simp add: usd_field_def and_then_def)
  next
    case u: (Inr u)
    then have "lookup q ''USD'' = Some u"
      by (simp add: subscript_Inr)
    then have "is_obj u"
      using assms(1) lq by (simp add: record_shaped_def)
    then show ?thesis
      using assms(2) q u subscript_shaped [of u k e]
      by (simp add: usd_field_def and_then_def)
  qed
qed

lemma usd_get_Inr:
  assumes "usd_lookup t k' = Some x"
  shows "usd_get t k = Inr (case usd_lookup t k of None \<Rightarrow> JNull | Some v \<Rightarrow> v)"
proof -
  obtain q u where q: "lookup t ''quote'' = Some q" "lookup q ''USD'' = Some u" "lookup u k' = Some x"
    using assms by (auto simp add: usd_lookup_def split: option.splits)
  obtain kvs where u: "u = JObj kvs"
    using lookup_is_obj [OF q(3)] by (cases u) auto
  show ?thesis
    using q(1,2) u
    by (simp add: usd_get_def usd_lookup_def and_then_def subscript_Inr [THEN iffD2] lookup_def)
qed

lemma complete_fields:
  assumes "\<not> missing_required t"
  shows "\<exists>s n r p c7 c30 c90. lookup t ''symbol'' = Some s \<and> lookup t ''name'' = Some n
      \<and> lookup t ''cmc_rank'' = Some r \<and> usd_lookup t ''price'' = Some p
      \<and> usd_lookup t ''percent_change_7d'' = Some c7 \<and> usd_lookup t ''percent_change_30d'' = Some c30
      \<and> usd_lookup t ''percent_change_90d'' = Some c90"
proof -
  have some: "\<exists>y. x = Some y" if "x \<in> set (required_fields t)" for x
    using assms that by (cases x) (auto simp add: missing_required_def)
  have "\<exists>y. lookup t ''symbol'' = Some y" "\<exists>y. lookup t ''name'' = Some y"
      "\<exists>y. lookup t ''cmc_rank'' = Some y" "\<exists>y. usd_lookup t ''price'' = Some y"
      "\<exists>y. usd_lookup t ''percent_change_7d'' = Some y"
      "\<exists>y. usd_lookup t ''percent_change_30d'' = Some y"
      "\<exists>y. usd_lookup t ''percent_change_90d'' = Some y"
    by (rule some, simp add: required_fields_def)+
  then show ?thesis
    by blast
qed

lemma listing_row_complete:
  assumes "\<not> missing_required t"
  shows "listing_row t = Inr (listing_token t)"
proof -
  obtain s n r p c7 c30 c90 where f: "lookup t ''symbol'' = Some s" "lookup t ''name'' = Some n"
      "lookup t ''cmc_rank'' = Some r" "usd_lookup t ''price'' = Some p"
      "usd_lookup t ''percent_change_7d'' = Some c7" "usd_lookup t ''percent_change_30d'' = Some c30"
      "usd_lookup t ''percent_change_90d'' = Some c90"
    using complete_fields [OF assms] by blast
  have "subscript t ''symbol'' = Inr s" "subscript t ''name'' = Inr n" "subscript t ''cmc_rank'' = Inr r"
      "usd_field t ''price'' = Inr p" "usd_field t ''percent_change_7d'' = Inr c7"
      "usd_field t ''percent_change_30d'' = Inr c30" "usd_field t ''percent_change_90d'' = Inr c90"
    using f by (simp_all add: subscript_Inr usd_field_Inr)
  then show ?thesis
    using f by (simp add: listing_row_def listing_token_def and_then_def)
qed

lemma token_row_complete:
  assumes "\<not> missing_required t"
  shows "token_row t = Inr (normalized_token t)"
proof -
  obtain s n r p c7 c30 c90 where f: "lookup t ''symbol'' = Some s" "lookup t ''name'' = Some n"
      "lookup t ''cmc_rank'' = Some r" "usd_lookup t ''price'' = Some p"
      "usd_lookup t ''percent_change_7d'' = Some c7" "usd_lookup t ''percent_change_30d'' = Some c30"
      "usd_lookup t ''percent_change_90d'' = Some c90"
    using complete_fields [OF assms] by blast
  have "subscript t ''symbol'' = Inr s" "subscript t ''name'' = Inr n" "subscript t ''cmc_rank'' = Inr r"
      "usd_field t ''price'' = Inr p" "usd_field t ''percent_change_7d'' = Inr c7"
      "usd_field t ''percent_change_30d'' = Inr c30" "usd_field t ''percent_change_90d'' = Inr c90"
    using f by (simp_all add: subscript_Inr usd_field_Inr)
  then show ?thesis
    using f usd_get_Inr [OF f(4), of "''percent_change_1y''"]
    by (simp add: token_row_def normalized_token_def listing_token_def and_then_def)
qed

lemma token_row_Inr:
  assumes "token_row t = Inr row"
  shows "\<not> missing_required t"
proof -
  have "\<exists>s. subscript t ''symbol'' = Inr s" "\<exists>s. subscript t ''name'' = Inr s"
      "\<exists>s. subscript t ''cmc_rank'' = Inr s" "\<exists>s. usd_field t ''price'' = Inr s"
      "\<exists>s. usd_field t ''percent_change_7d'' = Inr s" "\<exists>s. usd_field t ''percent_change_30d'' = Inr s"
      "\<exists>s. usd_field t ''percent_change_90d'' = Inr s"
    using assms by (auto simp add: token_row_def and_then_def split: sum.splits)
  then show ?thesis
    by (auto simp add: missing_required_def required_fields_def subscript_Inr usd_field_Inr)
qed

lemma token_row_error:
  assumes "token_row t = Inl e"
  shows "e = TypeError \<or> (\<exists>k. e = KeyError k)"
proof (cases "usd_field t ''percent_change_90d''")
  case (Inl e')
  then show ?thesis
    using assms
    by (auto simp add: token_row_def and_then_def split: sum.splits
        dest: subscript_error usd_field_error)
next
  case (Inr c90)
  then have "usd_lookup t ''percent_change_90d'' = Some c90"
    by (simp add: usd_field_Inr)
  then have "\<exists>v. usd_get t ''percent_change_1y'' = Inr v"
    using usd_get_Inr by blast
  then show ?thesis
    using assms
    by (auto simp add: token_row_def and_then_def split: sum.splits
        dest: subscript_error usd_field_error)
qed

lemma token_row_shaped:
  assumes "record_shaped t" "token_row t = Inl e"
  shows "\<exists>k\<in>set required_keys. e = KeyError k"
proof -
  have o: "is_obj t"
    using assms(1) by (simp add: record_shaped_def)
  have top: "\<And>k e'. subscript t k = Inl e' \<Longrightarrow> e' = KeyError k"
    using subscript_shaped [OF o] by blast
  have usd: "\<And>k e'. usd_field t k = Inl e' \<Longrightarrow>
      e' = KeyError ''quote'' \<or> e' = KeyError ''USD'' \<or> e' = KeyError k"
    using usd_field_shaped [OF assms(1)] by blast
  have e: "e = TypeError \<or> (\<exists>k. e = KeyError k)"
    using token_row_error [OF assms(2)] .
  show ?thesis
  proof (cases "usd_field t ''percent_change_90d''")
    case (Inl e')
    then show ?thesis
      using assms(2)
      by (auto simp add: token_row_def and_then_def required_keys_def split: sum.splits
          dest!: top usd)
  next
    case (Inr c90)
    then have "usd_lookup t ''percent_change_90d'' = Some c90"
      by (simp add: usd_field_Inr)
    then have "\<exists>v. usd_get t ''percent_change_1y'' = Inr v"
      using usd_get_Inr by blast
    then show ?thesis
      using assms(2)
      by (auto simp add: token_row_def and_then_def required_keys_def split: sum.splits
          dest!: top usd)
  qed
qed

lemma map_e_Inr: "map_e f xs = Inr ys \<longleftrightarrow> list_all2 (\<lambda>x y. f x = Inr y) xs ys"
proof (induction xs arbitrary: ys)
  case Nil
  show ?case by auto
next
  case (Cons x xs)
  show ?case
    using Cons.IH
    by (cases "f x"; cases "map_e f xs") (auto simp add: and_then_def list_all2_Cons1)
qed

lemma map_e_Inl: "map_e f xs = Inl e \<Longrightarrow> \<exists>x\<in>set xs. f x = Inl e"
proof (induction xs)
  case Nil
  then show ?case by simp
next
  case (Cons x xs)
  then show ?case
    by (cases "f x"; cases "map_e f xs") (auto simp add: and_then_def)
qed

lemma map_e_map: "(\<And>x. x \<in> set xs \<Longrightarrow> f x = Inr (g x)) \<Longrightarrow> map_e f xs = Inr (map g xs)"
  by (induction xs) (simp_all add: and_then_def)

lemma map_e_fails:
  assumes "x \<in> set xs" "f x = Inl e"
  shows "\<exists>e' y. map_e f xs = Inl e' \<and> y \<in> set xs \<and> f y = Inl e'"
proof (cases "map_e f xs")
  case (Inl e')
  then show ?thesis
    using map_e_Inl [OF Inl] by blast
next
  case (Inr ys)
  then have "list_all2 (\<lambda>x y. f x = Inr y) xs ys"
    by (simp add: map_e_Inr)
  then have "\<exists>y. f x = Inr y"
    using assms(1) by (auto simp add: list_all2_conv_all_nth in_set_conv_nth)
  then show ?thesis
    using assms(2) by simp
qed

lemma receives_success:
  assumes "rate_limit w \<noteq> 0" "jitters_ok env" "receives env w n r" "accepted r"
  shows "\<exists>w1. make_api_request env w = (Inr (Some r), w1)
     \<and> http_calls w1 = http_calls w + n + 1 \<and> draws w1 = draws w + n
     \<and> observed (trace w1) = observed (trace w) @ retries env 0 (draws w) n @ [HttpGet]"
proof -
  have a: "n < max_retries" "\<forall>i<n. retried (responses env (http_calls w + i))"
      "responses env (http_calls w + n) = Response r"
    using assms(3) by (simp_all add: receives_def)
  have b: "status_code r \<noteq> 401" "\<not> (400 \<le> status_code r \<and> status_code r < 600)"
    using assms(4) by (auto simp add: accepted_def raise_for_status_def split: if_splits)
  show ?thesis
    using make_api_request_success [OF assms(1,2) a b] .
qed

lemma get_token_data_rows:
  assumes "make_api_request env w = (Inr (Some r), w1)" "body r = Some j"
    "subscript j ''data'' = Inr (JObj kvs)"
  shows "get_token_data env symbols w =
     (case map_e token_row (map snd kvs) of
        Inl (KeyError k) \<Rightarrow> (Inr None, emit (PrintInvalidFormat k) w1)
      | Inl e \<Rightarrow> (Inl e, w1)
      | Inr rows \<Rightarrow> (Inr (Some rows), w1))"
proof (cases "map_e token_row (map snd kvs)")
  case (Inl e)
  then obtain t where "token_row t = Inl e"
    using map_e_Inl by blast
  then have "e = TypeError \<or> (\<exists>k. e = KeyError k)"
    by (rule token_row_error)
  then show ?thesis
    using assms Inl
    by (auto simp add: get_token_data_def parse_token_data_def and_then_def response_json_def)
next
  case (Inr rows)
  then show ?thesis
    using assms
    by (simp add: get_token_data_def parse_token_data_def and_then_def response_json_def)
qed

lemma get_token_data_missing:
  assumes "make_api_request env w = (Inr (Some r), w1)" "body r = Some j"
    "subscript j ''data'' = Inr (JObj kvs)" "t \<in> snd ` set kvs" "missing_required t"
  shows "((\<exists>k. get_token_data env symbols w = (Inr None, emit (PrintInvalidFormat k) w1))
          \<or> get_token_data env symbols w = (Inl TypeError, w1))
     \<and> ((\<forall>t\<in>snd ` set kvs. record_shaped t) \<longrightarrow>
          (\<exists>k\<in>set required_keys. get_token_data env symbols w = (Inr None, emit (PrintInvalidFormat k) w1)))"
proof -
  have tm: "t \<in> set (map snd kvs)"
    using assms(4) by simp
  obtain e0 where "token_row t = Inl e0"
    using assms(5) token_row_Inr [of t] by (cases "token_row t") auto
  then obtain e y where ey: "map_e token_row (map snd kvs) = Inl e" "y \<in> set (map snd kvs)"
      "token_row y = Inl e"
    using map_e_fails [OF tm] by blast
  then have e: "map_e token_row (map snd kvs) = Inl e" "y \<in> snd ` set kvs" "token_row y = Inl e"
    by simp_all
  have g: "get_token_data env symbols w =
      (case e of KeyError k \<Rightarrow> (Inr None, emit (PrintInvalidFormat k) w1) | _ \<Rightarrow> (Inl e, w1))"
    using get_token_data_rows [OF assms(1-3), of symbols] e(1) by (cases e) simp_all
  have "e = TypeError \<or> (\<exists>k. e = KeyError k)"
    using token_row_error [OF e(3)] .
  then have first: "(\<exists>k. get_token_data env symbols w = (Inr None, emit (PrintInvalidFormat k) w1))
          \<or> get_token_data env symbols w = (Inl TypeError, w1)"
    using g by auto
  have second: "\<exists>k\<in>set required_keys. get_token_data env symbols w = (Inr None, emit (PrintInvalidFormat k) w1)"
    if "\<forall>t\<in>snd ` set kvs. record_shaped t"
  proof -
    have "record_shaped y"
      using that e(2) by blast
    then obtain k where "k \<in> set required_keys" "e = KeyError k"
      using token_row_shaped [OF _ e(3)] by blast
    then show ?thesis
      using g by auto
  qed
  show ?thesis
    using first second by blast
qed

lemma get_top_performers_raise:
  "make_api_request env w = (Inl e, w1) \<Longrightarrow>
     get_top_performers env limit top_k w = (Inr None, emit (PrintTopError e) w1)"
  by (simp add: get_top_performers_def)

lemma get_token_data_raise:
  "make_api_request env w = (Inl e, w1) \<Longrightarrow>
     get_token_data env symbols w =
       (case e of RequestException x \<Rightarrow> (Inr None, emit (PrintRequestFailed x) w1)
        | KeyError k \<Rightarrow> (Inr None, emit (PrintInvalidFormat k) w1)
        | _ \<Rightarrow> (Inl e, w1))"
  by (simp add: get_token_data_def and_then_def split: error.splits)

lemma rank_performers_missing_rank:
  assumes "body r = Some j" "subscript j ''data'' = Inr (JArr xs)"
    "\<forall>t\<in>set (take 100 xs). is_obj t" "t \<in> set (take 100 xs)" "lookup t ''cmc_rank'' = None"
  shows "rank_performers r top_k = Inl (KeyError ''cmc_rank'')"
proof -
  let ?g = "\<lambda>x. and_then (subscript x ''cmc_rank'') (\<lambda>k. Inr (k, x))"
  have "is_obj t"
    using assms(3,4) by blast
  then have "?g t = Inl (KeyError ''cmc_rank'')"
    using assms(5) by (simp add: subscript_missing and_then_def)
  then obtain e y where e: "map_e ?g (take 100 xs) = Inl e" "y \<in> set (take 100 xs)" "?g y = Inl e"
    using map_e_fails [OF assms(4), of ?g] by blast
  have "is_obj y"
    using assms(3) e(2) by blast
  then have "e = KeyError ''cmc_rank''"
    using e(3) subscript_shaped [of y "''cmc_rank''"]
    by (auto simp add: and_then_def split: sum.splits)
  then show ?thesis
    using assms(1,2) e(1)
    by (simp add: rank_performers_def sorted_by_def and_then_def response_json_def)
qed

lemma get_top_performers_missing_rank:
  assumes "make_api_request env w = (Inr (Some r), w1)" "body r = Some j"
    "subscript j ''data'' = Inr (JArr xs)"
    "\<forall>t\<in>set (take 100 xs). is_obj t" "t \<in> set (take 100 xs)" "lookup t ''cmc_rank'' = None"
  shows "get_top_performers env limit top_k w
     = (Inr None, emit (PrintTopError (KeyError ''cmc_rank'')) w1)"
  using assms(1) rank_performers_missing_rank [OF assms(2-6)]
  by (simp add: get_top_performers_def)

subsection \<open>Facts about the concrete payloads\<close>

lemma receives_first: "receives (env_of (\<lambda>k. Response r)) clock0 0 r"
  by (simp add: receives_def env_of_def max_retries_def)

lemma accepted_success_body: "accepted (success_body j)"
  by (simp add: accepted_def success_body_def raise_for_status_def)

lemma complete_records: "\<not> missing_required btc" "\<not> missing_required eth"
  by (simp_all add: missing_required_def required_fields_def lookup_def usd_lookup_def
      btc_def eth_def quote_of_def)

lemma shaped_records: "record_shaped btc" "record_shaped eth" "record_shaped no_price"
  by (simp_all add: record_shaped_def lookup_def btc_def eth_def no_price_def quote_of_def)

lemma no_price_missing: "missing_required no_price"
  by (simp add: missing_required_def required_fields_def lookup_def usd_lookup_def
      no_price_def quote_of_def)

lemma map_e_token_row:
  "map_e token_row ts = Inr rows \<Longrightarrow>
     rows = map normalized_token ts \<and> (\<forall>t\<in>set ts. \<not> missing_required t)"
proof (induction ts arbitrary: rows)
  case Nil
  then show ?case by simp
next
  case (Cons t ts)
  obtain row rest where r: "token_row t = Inr row" "map_e token_row ts = Inr rest" "rows = row # rest"
    using Cons.prems by (auto simp add: and_then_def split: sum.splits)
  have c: "\<not> missing_required t"
    using token_row_Inr [OF r(1)] .
  then have "row = normalized_token t"
    using token_row_complete [of t] r(1) by simp
  then show ?case
    using Cons.IH [OF r(2)] r(3) c by simp
qed

lemma concrete_rows:
  "map_e token_row [btc, no_price] = Inl (KeyError ''price'')"
  by (simp add: token_row_def usd_field_def usd_get_def and_then_def btc_def no_price_def quote_of_def)

lemma concrete_normalized:
  "map_of (normalized_token btc) ''1y_change'' = Some (JNum 120)"
  "map_of (normalized_token eth) ''1y_change'' = Some JNull"
  "map_of (normalized_token eth) ''price'' = Some (JNum 3200)"
  by (simp_all add: normalized_token_def listing_token_def usd_lookup_def lookup_def
      btc_def eth_def quote_of_def)

section \<open>What the callers see of a failure\<close>

text \<open>
  C4, as amended. A terminal failure of a core operation is not swallowed silently, a line
  naming it is printed; but it reaches the caller as the untyped \<^verbatim>\<open>None\<close>, not as a
  result that tells its kind. This is so when the retries are exhausted, in both
  operations; when the credential is invalid, in \<^verbatim>\<open>get_top_performers\<close>, while in
  \<^verbatim>\<open>get_token_data\<close> the \<^verbatim>\<open>ValueError\<close> of the pipeline goes on to the caller; when a
  token record of the quotes payload misses a required field, the records having the shape
  of records, in \<^verbatim>\<open>get_token_data\<close>; and when an entry among the first 100 of the
  listing has no \<^verbatim>\<open>cmc_rank\<close>, these entries being objects, in \<^verbatim>\<open>get_top_performers\<close>.
\<close>

theorem failures_reach_the_caller_as_none:
  assumes "rate_limit w \<noteq> 0" "jitters_ok env"
  shows "((\<forall>i<max_retries. retried (responses env (http_calls w + i))) \<longrightarrow>
          (\<exists>w1 x. get_top_performers env limit top_k w
                  = (Inr None, emit (PrintTopError (RequestException x)) w1)
                \<and> get_token_data env symbols w = (Inr None, emit (PrintRequestFailed x) w1)))
      \<and> (receives env w n r \<and> status_code r = 401
           \<and> error_message r = Inr m \<and> py_in ''Invalid API key'' m = Inr True \<longrightarrow>
          (\<exists>w1. get_top_performers env limit top_k w
                  = (Inr None, emit (PrintTopError
                       (ValueError ''Invalid API key - please check your .env file'')) w1)
                \<and> get_token_data env symbols w
                  = (Inl (ValueError ''Invalid API key - please check your .env file''), w1)))
      \<and> (receives env w n r \<and> accepted r \<and> body r = Some j
           \<and> subscript j ''data'' = Inr (JObj kvs)
           \<and> (\<forall>t\<in>snd ` set kvs. record_shaped t) \<and> (\<exists>t\<in>snd ` set kvs. missing_required t) \<longrightarrow>
          (\<exists>w1. \<exists>k\<in>set required_keys.
             get_token_data env symbols w = (Inr None, emit (PrintInvalidFormat k) w1)))
      \<and> (receives env w n r \<and> accepted r \<and> body r = Some j
           \<and> subscript j ''data'' = Inr (JArr xs)
           \<and> (\<forall>t\<in>set (take 100 xs). is_obj t)
           \<and> (\<exists>t\<in>set (take 100 xs). lookup t ''cmc_rank'' = None) \<longrightarrow>
          (\<exists>w1. get_top_performers env limit top_k w
                  = (Inr None, emit (PrintTopError (KeyError ''cmc_rank'')) w1)))"
proof (intro conjI impI)
  assume "\<forall>i<max_retries. retried (responses env (http_calls w + i))"
  then obtain w1 x where "make_api_request env w = (Inl (RequestException x), w1)"
    using make_api_request_exhausted [OF assms] by blast
  then show "\<exists>w1 x. get_top_performers env limit top_k w
                  = (Inr None, emit (PrintTopError (RequestException x)) w1)
                \<and> get_token_data env symbols w = (Inr None, emit (PrintRequestFailed x) w1)"
    using get_top_performers_raise [of env w "RequestException x" w1 limit top_k]
      get_token_data_raise [of env w "RequestException x" w1 symbols] by auto
next
  assume a: "receives env w n r \<and> status_code r = 401
           \<and> error_message r = Inr m \<and> py_in ''Invalid API key'' m = Inr True"
  then have b: "n < max_retries" "\<forall>i<n. retried (responses env (http_calls w + i))"
      "responses env (http_calls w + n) = Response r"
    by (simp_all add: receives_def)
  obtain w1 where "make_api_request env w
      = (Inl (ValueError ''Invalid API key - please check your .env file''), w1)"
    using make_api_request_invalid_key [OF assms b, of m] a by blast
  then show "\<exists>w1. get_top_performers env limit top_k w
                  = (Inr None, emit (PrintTopError
                       (ValueError ''Invalid API key - please check your .env file'')) w1)
                \<and> get_token_data env symbols w
                  = (Inl (ValueError ''Invalid API key - please check your .env file''), w1)"
    using get_top_performers_raise [of env w _ w1 limit top_k]
      get_token_data_raise [of env w _ w1 symbols] by auto
next
  assume a: "receives env w n r \<and> accepted r \<and> body r = Some j
           \<and> subscript j ''data'' = Inr (JObj kvs)
           \<and> (\<forall>t\<in>snd ` set kvs. record_shaped t) \<and> (\<exists>t\<in>snd ` set kvs. missing_required t)"
  then obtain t where t: "t \<in> snd ` set kvs" "missing_required t"
    by blast
  obtain w1 where w1: "make_api_request env w = (Inr (Some r), w1)"
    using receives_success [OF assms, of n r] a by blast
  have "body r = Some j" "subscript j ''data'' = Inr (JObj kvs)"
    using a by simp_all
  then show "\<exists>w1. \<exists>k\<in>set required_keys.
             get_token_data env symbols w = (Inr None, emit (PrintInvalidFormat k) w1)"
    using get_token_data_missing [OF w1 _ _ t] a by blast
next
  assume a: "receives env w n r \<and> accepted r \<and> body r = Some j
           \<and> subscript j ''data'' = Inr (JArr xs)
           \<and> (\<forall>t\<in>set (take 100 xs). is_obj t)
           \<and> (\<exists>t\<in>set (take 100 xs). lookup t ''cmc_rank'' = None)"
  then obtain t where t: "t \<in> set (take 100 xs)" "lookup t ''cmc_rank'' = None"
    by blast
  obtain w1 where w1: "make_api_request env w = (Inr (Some r), w1)"
    using receives_success [OF assms, of n r] a by blast
  have "body r = Some j" "subscript j ''data'' = Inr (JArr xs)" "\<forall>t\<in>set (take 100 xs). is_obj t"
    using a by simp_all
  then show "\<exists>w1. get_top_performers env limit top_k w
                  = (Inr None, emit (PrintTopError (KeyError ''cmc_rank'')) w1)"
    using get_top_performers_missing_rank [OF w1 _ _ _ t] by blast
qed

text \<open>A network that is down, a key that is invalid, a quote without a price and a
  listing entry without a rank.\<close>

theorem failures_reach_the_caller_as_none_witness:
  "rate_limit clock0 \<noteq> 0 \<and> jitters_ok (env_of (\<lambda>k. NetworkFailure ''timeout''))
   \<and> retried (responses (env_of (\<lambda>k. NetworkFailure ''timeout'')) (http_calls clock0 + 4))
   \<and> fst (get_top_performers (env_of (\<lambda>k. NetworkFailure ''timeout'')) 100 5 clock0) = Inr None
   \<and> fst (get_token_data (env_of (\<lambda>k. NetworkFailure ''timeout'')) [''BTC'', ''ETH''] clock0) = Inr None
   \<and> receives (env_of (\<lambda>k. Response (unauthorized ''Invalid API key''))) clock0 0
        (unauthorized ''Invalid API key'')
   \<and> py_in ''Invalid API key'' (JStr ''Invalid API key'') = Inr True
   \<and> fst (get_top_performers (env_of (\<lambda>k. Response (unauthorized ''Invalid API key''))) 100 5 clock0) = Inr None
   \<and> fst (get_token_data (env_of (\<lambda>k. Response (unauthorized ''Invalid API key''))) [''BTC'', ''ETH''] clock0)
       = Inl (ValueError ''Invalid API key - please check your .env file'')
   \<and> record_shaped no_price \<and> missing_required no_price
   \<and> fst (get_token_data (env_of (\<lambda>k. Response (quotes_payload [(''BTC'', btc), (''XRP'', no_price)])))
        [''BTC'', ''XRP''] clock0) = Inr None
   \<and> is_obj no_rank \<and> lookup no_rank ''cmc_rank'' = None
   \<and> fst (get_top_performers (env_of (\<lambda>k. Response (listing_payload [btc, no_rank]))) 100 5 clock0)
       = Inr None"
proof -
  let ?down = "env_of (\<lambda>k. NetworkFailure ''timeout'')"
  let ?bad = "env_of (\<lambda>k. Response (unauthorized ''Invalid API key''))"
  let ?quotes = "env_of (\<lambda>k. Response (quotes_payload [(''BTC'', btc), (''XRP'', no_price)]))"
  let ?listing = "env_of (\<lambda>k. Response (listing_payload [btc, no_rank]))"
  have t: "\<forall>i<max_retries. retried (responses ?down (http_calls clock0 + i))"
    by (simp add: env_of_def)
  have e: "fst (get_top_performers ?down 100 5 clock0) = Inr None
      \<and> fst (get_token_data ?down [''BTC'', ''ETH''] clock0) = Inr None"
  proof -
    obtain w1 x where "get_top_performers ?down 100 5 clock0
          = (Inr None, emit (PrintTopError (RequestException x)) w1)"
        "get_token_data ?down [''BTC'', ''ETH''] clock0 = (Inr None, emit (PrintRequestFailed x) w1)"
      using failures_reach_the_caller_as_none [where env = "?down" and w = clock0 and limit = 100
          and top_k = 5 and symbols = "[''BTC'', ''ETH'']" and n = 0 and r = "unauthorized []"
          and m = JNull and j = JNull and kvs = "[]" and xs = "[]",
          OF clock0_ready env_of_jitters_ok, THEN conjunct1] t
      by blast
    then show ?thesis by simp
  qed
  have h8: "py_in ''Invalid API key'' (JStr ''Invalid API key'') = Inr True"
    by simp
  have h6: "status_code (unauthorized ''Invalid API key'') = 401"
    by (simp add: unauthorized_def)
  have a: "fst (get_top_performers ?bad 100 5 clock0) = Inr None
      \<and> fst (get_token_data ?bad [''BTC'', ''ETH''] clock0)
          = Inl (ValueError ''Invalid API key - please check your .env file'')"
  proof -
    obtain w1 where "get_top_performers ?bad 100 5 clock0
          = (Inr None, emit (PrintTopError
                (ValueError ''Invalid API key - please check your .env file'')) w1)"
        "get_token_data ?bad [''BTC'', ''ETH''] clock0
          = (Inl (ValueError ''Invalid API key - please check your .env file''), w1)"
      using failures_reach_the_caller_as_none [where env = "?bad" and w = clock0 and limit = 100
          and top_k = 5 and symbols = "[''BTC'', ''ETH'']" and n = 0
          and r = "unauthorized ''Invalid API key''" and m = "JStr ''Invalid API key''"
          and j = JNull and kvs = "[]" and xs = "[]",
          OF clock0_ready env_of_jitters_ok, THEN conjunct2, THEN conjunct1]
        receives_first h6 h8 error_message_unauthorized [of "''Invalid API key''"]
      by blast
    then show ?thesis by simp
  qed
  have q: "fst (get_token_data ?quotes [''BTC'', ''XRP''] clock0) = Inr None"
  proof -
    have b: "body (quotes_payload [(''BTC'', btc), (''XRP'', no_price)])
        = Some (JObj [(''data'', JObj [(''BTC'', btc), (''XRP'', no_price)])])"
      "subscript (JObj [(''data'', JObj [(''BTC'', btc), (''XRP'', no_price)])]) ''data''
        = Inr (JObj [(''BTC'', btc), (''XRP'', no_price)])"
      by (simp_all add: quotes_payload_def success_body_def)
    have s: "\<forall>t\<in>snd ` set [(''BTC'', btc), (''XRP'', no_price)]. record_shaped t"
      "\<exists>t\<in>snd ` set [(''BTC'', btc), (''XRP'', no_price)]. missing_required t"
      using shaped_records no_price_missing by simp_all
    have acc: "accepted (quotes_payload [(''BTC'', btc), (''XRP'', no_price)])"
      by (simp add: quotes_payload_def accepted_success_body)
    obtain w1 k where "get_token_data ?quotes [''BTC'', ''XRP''] clock0
          = (Inr None, emit (PrintInvalidFormat k) w1)"
      using failures_reach_the_caller_as_none [where env = "?quotes" and w = clock0 and limit = 100
          and top_k = 5 and symbols = "[''BTC'', ''XRP'']" and n = 0
          and r = "quotes_payload [(''BTC'', btc), (''XRP'', no_price)]" and m = JNull
          and j = "JObj [(''data'', JObj [(''BTC'', btc), (''XRP'', no_price)])]"
          and kvs = "[(''BTC'', btc), (''XRP'', no_price)]" and xs = "[]",
          OF clock0_ready env_of_jitters_ok, THEN conjunct2, THEN conjunct2, THEN conjunct1]
        receives_first acc b s
      by blast
    then show ?thesis by simp
  qed
  have o: "is_obj no_rank" "lookup no_rank ''cmc_rank'' = None" "is_obj btc"
    by (simp_all add: no_rank_def btc_def lookup_def)
  have l: "fst (get_top_performers ?listing 100 5 clock0) = Inr None"
  proof -
    have b: "body (listing_payload [btc, no_rank]) = Some (JObj [(''data'', JArr [btc, no_rank])])"
      "subscript (JObj [(''data'', JArr [btc, no_rank])]) ''data'' = Inr (JArr [btc, no_rank])"
      by (simp_all add: listing_payload_def success_body_def)
    have s: "\<forall>t\<in>set (take 100 [btc, no_rank]). is_obj t"
      "\<exists>t\<in>set (take 100 [btc, no_rank]). lookup t ''cmc_rank'' = None"
      using o by simp_all
    have acc: "accepted (listing_payload [btc, no_rank])"
      by (simp add: listing_payload_def accepted_success_body)
    obtain w1 where "get_top_performers ?listing 100 5 clock0
          = (Inr None, emit (PrintTopError (KeyError ''cmc_rank'')) w1)"
      using failures_reach_the_caller_as_none [where env = "?listing" and w = clock0 and limit = 100
          and top_k = 5 and symbols = "[]" and n = 0
          and r = "listing_payload [btc, no_rank]" and m = JNull
          and j = "JObj [(''data'', JArr [btc, no_rank])]"
          and kvs = "[]" and xs = "[btc, no_rank]",
          OF clock0_ready env_of_jitters_ok, THEN conjunct2, THEN conjunct2, THEN conjunct2]
        receives_first acc b s
      by blast
    then show ?thesis by simp
  qed
  have t4: "retried (responses ?down (http_calls clock0 + 4))"
    by (simp add: env_of_def)
  show ?thesis
    using clock0_ready env_of_jitters_ok t4 e receives_first [of "unauthorized ''Invalid API key''"]
      h8 a shaped_records(3) no_price_missing q o(1,2) l
    by blast
qed

text \<open>
  C4 as stated has every terminal failure arrive as a result that tells its kind. In
  \<^verbatim>\<open>get_top_performers\<close> the invalid credential, the exhausted retries and the listing
  entry without a rank arrive as the same \<^verbatim>\<open>None\<close>.
\<close>

theorem auth_failure_comes_back_as_none:
  "fst (get_top_performers (env_of (\<lambda>k. Response (unauthorized ''Invalid API key''))) 100 5 clock0) = Inr None
   \<and> fst (get_top_performers (env_of (\<lambda>k. NetworkFailure ''timeout'')) 100 5 clock0) = Inr None
   \<and> fst (get_top_performers (env_of (\<lambda>k. Response (listing_payload [btc, no_rank]))) 100 5 clock0)
       = Inr None"
proof -
  let ?down = "env_of (\<lambda>k. NetworkFailure ''timeout'')"
  let ?bad = "env_of (\<lambda>k. Response (unauthorized ''Invalid API key''))"
  let ?listing = "env_of (\<lambda>k. Response (listing_payload [btc, no_rank]))"
  have t: "\<forall>i<max_retries. retried (responses ?down (http_calls clock0 + i))"
    by (simp add: env_of_def)
  obtain w1 x where "make_api_request ?down clock0 = (Inl (RequestException x), w1)"
    using make_api_request_exhausted [OF clock0_ready env_of_jitters_ok t] by blast
  then have d: "fst (get_top_performers ?down 100 5 clock0) = Inr None"
    using get_top_performers_raise [of ?down clock0 _ w1 100 5] by simp
  have h3: "(0::nat) < max_retries" by (simp add: max_retries_def)
  have h4: "\<forall>i<0. retried (responses ?bad (http_calls clock0 + i))" by simp
  have h5: "responses ?bad (http_calls clock0 + 0) = Response (unauthorized ''Invalid API key'')"
    by (simp add: env_of_def)
  have h6: "status_code (unauthorized ''Invalid API key'') = 401"
    by (simp add: unauthorized_def)
  have h8: "py_in ''Invalid API key'' (JStr ''Invalid API key'') = Inr True"
    by simp
  obtain w2 where "make_api_request ?bad clock0
      = (Inl (ValueError ''Invalid API key - please check your .env file''), w2)"
    using make_api_request_invalid_key [OF clock0_ready env_of_jitters_ok h3 h4 h5 h6
        error_message_unauthorized h8] by blast
  then have b: "fst (get_top_performers ?bad 100 5 clock0) = Inr None"
    using get_top_performers_raise [of ?bad clock0 _ w2 100 5] by simp
  have acc: "accepted (listing_payload [btc, no_rank])"
    by (simp add: listing_payload_def accepted_success_body)
  obtain w3 where w3: "make_api_request ?listing clock0 = (Inr (Some (listing_payload [btc, no_rank])), w3)"
    using receives_success [OF clock0_ready env_of_jitters_ok receives_first acc] by blast
  have o: "\<forall>t\<in>set (take 100 [btc, no_rank]). is_obj t" "no_rank \<in> set (take 100 [btc, no_rank])"
      "lookup no_rank ''cmc_rank'' = None"
    by (simp_all add: no_rank_def btc_def lookup_def)
  have "body (listing_payload [btc, no_rank]) = Some (JObj [(''data'', JArr [btc, no_rank])])"
      "subscript (JObj [(''data'', JArr [btc, no_rank])]) ''data'' = Inr (JArr [btc, no_rank])"
    by (simp_all add: listing_payload_def success_body_def)
  then have c: "fst (get_top_performers ?listing 100 5 clock0) = Inr None"
    using get_top_performers_missing_rank [OF w3 _ _ o] by simp
  show ?thesis
    using b d c by simp
qed

section \<open>The quotes of a batch of symbols\<close>



text \<open>
  C9. In a batch that \<^verbatim>\<open>get_token_data\<close> has fetched (\<^verbatim>\<open>data\<close> being an object), when
  no record misses a required field the call returns the list of the normalized tokens of
  the records, in their order, whether or not a record has the 1-year change; and whenever
  the call returns a list, it is that list and no record misses a required field. In the
  normalized token of a record without the 1-year change, \<^verbatim>\<open>1y_change\<close> is \<^verbatim>\<open>None\<close>.
\<close>

theorem optional_field_is_none:
  assumes "rate_limit w \<noteq> 0" "jitters_ok env" "receives env w n r" "accepted r"
    "body r = Some j" "subscript j ''data'' = Inr (JObj kvs)"
  shows "\<exists>w1. ((\<forall>t\<in>snd ` set kvs. \<not> missing_required t) \<longrightarrow>
             get_token_data env symbols w = (Inr (Some (map normalized_token (map snd kvs))), w1))
      \<and> (\<forall>rows w2. get_token_data env symbols w = (Inr (Some rows), w2) \<longrightarrow>
             rows = map normalized_token (map snd kvs) \<and> (\<forall>t\<in>snd ` set kvs. \<not> missing_required t))
      \<and> (\<forall>t\<in>snd ` set kvs. usd_lookup t ''percent_change_1y'' = None \<longrightarrow>
             map_of (normalized_token t) ''1y_change'' = Some JNull)"
proof -
  obtain w1 where w1: "make_api_request env w = (Inr (Some r), w1)"
    using receives_success [OF assms(1-4)] by blast
  have g: "get_token_data env symbols w =
     (case map_e token_row (map snd kvs) of
        Inl (KeyError k) \<Rightarrow> (Inr None, emit (PrintInvalidFormat k) w1)
      | Inl e \<Rightarrow> (Inl e, w1)
      | Inr rows \<Rightarrow> (Inr (Some rows), w1))"
    using get_token_data_rows [OF w1 assms(5,6)] .
  have a: "get_token_data env symbols w = (Inr (Some (map normalized_token (map snd kvs))), w1)"
    if "\<forall>t\<in>snd ` set kvs. \<not> missing_required t"
  proof -
    have "map_e token_row (map snd kvs) = Inr (map normalized_token (map snd kvs))"
      using that by (intro map_e_map token_row_complete) auto
    then show ?thesis
      using g by simp
  qed
  have b: "rows = map normalized_token (map snd kvs) \<and> (\<forall>t\<in>snd ` set kvs. \<not> missing_required t)"
    if "get_token_data env symbols w = (Inr (Some rows), w2)" for rows w2
  proof -
    have "map_e token_row (map snd kvs) = Inr rows"
      using that g by (auto split: sum.splits error.splits)
    then show ?thesis
      using map_e_token_row [of "map snd kvs" rows] by simp
  qed
  have c: "\<forall>t\<in>snd ` set kvs. usd_lookup t ''percent_change_1y'' = None \<longrightarrow>
             map_of (normalized_token t) ''1y_change'' = Some JNull"
    by (simp add: normalized_token_def listing_token_def)
  show ?thesis
    using a b c by blast
qed

text \<open>Bitcoin with its 1-year change and Ethereum without: two rows, the second with
  \<^verbatim>\<open>None\<close> for the change over a year and its price as in the payload.\<close>

theorem optional_field_is_none_witness:
  "rate_limit clock0 \<noteq> 0
   \<and> receives (env_of (\<lambda>k. Response (quotes_payload [(''BTC'', btc), (''ETH'', eth)]))) clock0 0
        (quotes_payload [(''BTC'', btc), (''ETH'', eth)])
   \<and> accepted (quotes_payload [(''BTC'', btc), (''ETH'', eth)])
   \<and> usd_lookup eth ''percent_change_1y'' = None
   \<and> fst (get_token_data (env_of (\<lambda>k. Response (quotes_payload [(''BTC'', btc), (''ETH'', eth)])))
        [''BTC'', ''ETH''] clock0) = Inr (Some [normalized_token btc, normalized_token eth])
   \<and> map_of (normalized_token eth) ''1y_change'' = Some JNull
   \<and> map_of (normalized_token eth) ''price'' = Some (JNum 3200)
   \<and> map_of (normalized_token btc) ''1y_change'' = Some (JNum 120)"
proof -
  let ?r = "quotes_payload [(''BTC'', btc), (''ETH'', eth)]"
  let ?env = "env_of (\<lambda>k. Response ?r)"
  have b: "body ?r = Some (JObj [(''data'', JObj [(''BTC'', btc), (''ETH'', eth)])])"
      "subscript (JObj [(''data'', JObj [(''BTC'', btc), (''ETH'', eth)])]) ''data''
        = Inr (JObj [(''BTC'', btc), (''ETH'', eth)])"
    by (simp_all add: quotes_payload_def success_body_def)
  have acc: "accepted ?r"
    by (simp add: quotes_payload_def accepted_success_body)
  have c: "\<forall>t\<in>snd ` set [(''BTC'', btc), (''ETH'', eth)]. \<not> missing_required t"
    using complete_records by simp
  have y: "usd_lookup eth ''percent_change_1y'' = None"
    by (simp add: usd_lookup_def lookup_def eth_def quote_of_def)
  obtain w1 where w1: "(\<forall>t\<in>snd ` set [(''BTC'', btc), (''ETH'', eth)]. \<not> missing_required t) \<longrightarrow>
      get_token_data ?env [''BTC'', ''ETH''] clock0
        = (Inr (Some (map normalized_token (map snd [(''BTC'', btc), (''ETH'', eth)]))), w1)"
      "\<forall>t\<in>snd ` set [(''BTC'', btc), (''ETH'', eth)]. usd_lookup t ''percent_change_1y'' = None \<longrightarrow>
         map_of (normalized_token t) ''1y_change'' = Some JNull"
    using optional_field_is_none [OF clock0_ready env_of_jitters_ok receives_first acc b,
        of "[''BTC'', ''ETH'']"]
    by blast
  have g: "fst (get_token_data ?env [''BTC'', ''ETH''] clock0)
      = Inr (Some [normalized_token btc, normalized_token eth])"
    using w1(1) c by simp
  have n: "map_of (normalized_token eth) ''1y_change'' = Some JNull"
    using w1(2) y by simp
  show ?thesis
    using clock0_ready receives_first [of ?r] acc y g n concrete_normalized(1,3) by blast
qed

end
